theory Spec2Isabelle
  imports Complex_Main "HOL-Library.Sublist" "HOL-Library.FSet" "HOL-Library.Multiset"
begin

text \<open>
  A model of the deposit-rate scraper and the proofs of its properties. The functions of
  \<open>utils.py\<close>, \<open>http.py\<close>, \<open>parsers.py\<close> and of the loop of \<open>cli.py\<close> keep their names,
  without the leading underscore. A function that can raise returns a sum, \<open>Inl\<close> being
  the exception; a function that sends requests takes the state of the network and
  returns the new one. What the source asks of its libraries is either modelled (the
  regular expressions, \<open>float\<close>, \<open>urlparse\<close>, \<open>parse_qs\<close>, the queries on a parsed
  document) or a parameter (the record \<open>lib\<close>).
\<close>

section \<open>Python strings\<close>

text \<open>
  A Python \<open>str\<close> is modelled as a \<^typ>\<open>string\<close>, read as a sequence of code points
  below 256 (ASCII and Latin-1), so that \<open>len\<close> and slicing count what Python counts.
  The keyword tuples of the source also hold Cyrillic tokens; a Cyrillic token is never a
  substring of a text of code points below 256, so those tokens are left out of the tuples
  below (each place says so). Floats are modelled as exact rationals plus the three
  non-finite values; rounding, overflow and underflow of IEEE doubles are not modelled.
\<close>

definition isspace :: "char \<Rightarrow> bool" where
  \<comment> \<open>\<open>str.isspace\<close>, also the class \<open>\s\<close> of \<open>re\<close> and the characters removed by
      \<open>str.strip()\<close> and \<open>str.split()\<close>\<close>
  "isspace c = (let n = (of_char c :: nat) in
     (9 \<le> n \<and> n \<le> 13) \<or> (28 \<le> n \<and> n \<le> 32) \<or> n = 133 \<or> n = 160)"

definition isdecimal :: "char \<Rightarrow> bool" where
  \<comment> \<open>the class \<open>\d\<close> of \<open>re\<close>\<close>
  "isdecimal c = (let n = (of_char c :: nat) in 48 \<le> n \<and> n \<le> 57)"

definition isdigit :: "char \<Rightarrow> bool" where
  \<comment> \<open>\<open>str.isdigit\<close>: the decimal digits and the superscripts 1, 2, 3\<close>
  "isdigit c = (let n = (of_char c :: nat) in
     (48 \<le> n \<and> n \<le> 57) \<or> n = 178 \<or> n = 179 \<or> n = 185)"

definition isupper :: "char \<Rightarrow> bool" where
  "isupper c = (let n = (of_char c :: nat) in
     (65 \<le> n \<and> n \<le> 90) \<or> (192 \<le> n \<and> n \<le> 214) \<or> (216 \<le> n \<and> n \<le> 222))"

definition lower_char :: "char \<Rightarrow> char" where
  \<comment> \<open>an upper-case letter and its lower-case form differ by 32, that is by bit 5\<close>
  "lower_char c = (if isupper c
     then (case c of Char b0 b1 b2 b3 b4 b5 b6 b7 \<Rightarrow> Char b0 b1 b2 b3 b4 True b6 b7)
     else c)"

definition lower :: "string \<Rightarrow> string" where
  "lower s = map lower_char s"

definition upper_char :: "char \<Rightarrow> char" where
  "upper_char c = (let n = (of_char c :: nat) in
     if (97 \<le> n \<and> n \<le> 122) \<or> (224 \<le> n \<and> n \<le> 246) \<or> (248 \<le> n \<and> n \<le> 254)
     then (case c of Char b0 b1 b2 b3 b4 b5 b6 b7 \<Rightarrow> Char b0 b1 b2 b3 b4 False b6 b7)
     else c)"

definition strip :: "string \<Rightarrow> string" where
  "strip s = rev (dropWhile isspace (rev (dropWhile isspace s)))"

fun split_from :: "string \<Rightarrow> string \<Rightarrow> string list" where
  \<comment> \<open>\<open>split_from cur s\<close>: the words of \<open>s\<close>, \<open>cur\<close> being the word read so far\<close>
  "split_from cur [] = (if cur = [] then [] else [cur])"
| "split_from cur (c # cs) =
     (if isspace c then (if cur = [] then split_from [] cs else cur # split_from [] cs)
      else split_from (cur @ [c]) cs)"

definition split :: "string \<Rightarrow> string list" where
  \<comment> \<open>\<open>s.split()\<close>: the maximal runs of non-whitespace characters\<close>
  "split s = split_from [] s"

fun join :: "string \<Rightarrow> string list \<Rightarrow> string" where
  "join sep [] = []"
| "join sep [x] = x"
| "join sep (x # y # ys) = x @ sep @ join sep (y # ys)"

fun startswith :: "string \<Rightarrow> string \<Rightarrow> bool" where
  \<comment> \<open>\<open>startswith s p\<close> is \<open>s.startswith(p)\<close>\<close>
  "startswith s [] = True"
| "startswith [] (p # ps) = False"
| "startswith (c # cs) (p # ps) = (c = p \<and> startswith cs ps)"

definition endswith :: "string \<Rightarrow> string \<Rightarrow> bool" where
  "endswith s p = startswith (rev s) (rev p)"

fun contains :: "string \<Rightarrow> string \<Rightarrow> bool" where
  \<comment> \<open>\<open>contains s x\<close> is \<open>x in s\<close>\<close>
  "contains [] x = (x = [])"
| "contains (c # cs) x = (startswith (c # cs) x \<or> contains cs x)"

definition any_in :: "string list \<Rightarrow> string \<Rightarrow> bool" where
  \<comment> \<open>\<open>any(x in t for x in xs)\<close>\<close>
  "any_in xs t = list_ex (contains t) xs"

definition replace_comma :: "string \<Rightarrow> string" where
  \<comment> \<open>\<open>s.replace(",", ".")\<close>\<close>
  "replace_comma s = map (\<lambda>c. if c = CHR '','' then CHR ''.'' else c) s"

definition norm_py :: "string \<Rightarrow> string" where
  \<comment> \<open>\<open>_norm\<close>\<close>
  "norm_py s = join '' '' (split s)"

section \<open>Floats and \<open>float()\<close>\<close>

datatype pyfloat = Fin rat | PInf | NInf | NaN

definition digits_val :: "string \<Rightarrow> nat" where
  "digits_val ds = foldl (\<lambda>a c. 10 * a + (of_char c - 48)) 0 ds"

fun underscores_ok :: "char \<Rightarrow> string \<Rightarrow> bool" where
  \<comment> \<open>an underscore of a numeric literal stands between two digits;
      the first argument is the previous character\<close>
  "underscores_ok prev [] = (prev \<noteq> CHR ''_'')"
| "underscores_ok prev (c # cs) =
     ((if c = CHR ''_'' then isdecimal prev else \<not> (prev = CHR ''_'' \<and> \<not> isdecimal c))
      \<and> underscores_ok c cs)"

definition split_sign :: "string \<Rightarrow> bool \<times> string" where
  \<comment> \<open>an optional sign; True when the sign is minus\<close>
  "split_sign s = (case s of
       c # cs \<Rightarrow> if c = CHR ''-'' then (True, cs) else if c = CHR ''+'' then (False, cs)
                 else (False, s)
     | [] \<Rightarrow> (False, s))"

definition parse_exponent :: "string \<Rightarrow> int option" where
  \<comment> \<open>the rest of a literal after its digits: empty, or \<open>e\<close>, a sign and digits to the end\<close>
  "parse_exponent s = (case s of
       [] \<Rightarrow> Some 0
     | c # cs \<Rightarrow>
         if c = CHR ''e'' \<or> c = CHR ''E'' then
           (let (neg, ds) = split_sign cs in
            if ds \<noteq> [] \<and> list_all isdecimal ds
            then Some (if neg then - int (digits_val ds) else int (digits_val ds))
            else None)
         else None)"

definition scale10 :: "nat \<Rightarrow> int \<Rightarrow> rat" where
  "scale10 m e = (if 0 \<le> e then of_nat m * 10 ^ nat e else of_nat m / 10 ^ nat (- e))"

definition parse_decimal :: "string \<Rightarrow> rat option" where
  \<comment> \<open>digits with an optional point and fraction, or a point and digits, then the exponent\<close>
  "parse_decimal s =
     (let d1 = takeWhile isdecimal s; r1 = dropWhile isdecimal s;
          r2 = (case r1 of c # cs \<Rightarrow> if c = CHR ''.'' then cs else r1 | [] \<Rightarrow> r1);
          d2 = (if r2 = r1 then [] else takeWhile isdecimal r2);
          r3 = (if r2 = r1 then r1 else dropWhile isdecimal r2)
      in if d1 = [] \<and> d2 = [] then None
         else (case parse_exponent r3 of
                 None \<Rightarrow> None
               | Some e \<Rightarrow> Some (scale10 (digits_val (d1 @ d2)) (e - int (length d2)))))"

definition py_float :: "string \<Rightarrow> pyfloat option" where
  \<comment> \<open>\<open>float(s)\<close>; None is ValueError\<close>
  "py_float s0 =
     (let s = strip s0 in
      if \<not> underscores_ok (CHR 0x00) s then None
      else
        (let (neg, body) = split_sign (filter (\<lambda>c. c \<noteq> CHR ''_'') s); lb = lower body in
         if lb = ''inf'' \<or> lb = ''infinity'' then Some (if neg then NInf else PInf)
         else if lb = ''nan'' then Some NaN
         else (case parse_decimal body of
                 None \<Rightarrow> None
               | Some v \<Rightarrow> Some (Fin (if neg then - v else v)))))"

definition fdiv100 :: "pyfloat \<Rightarrow> pyfloat" where
  \<comment> \<open>\<open>v / 100.0\<close>\<close>
  "fdiv100 v = (case v of Fin r \<Rightarrow> Fin (r / 100) | PInf \<Rightarrow> PInf | NInf \<Rightarrow> NInf | NaN \<Rightarrow> NaN)"

definition fgt1 :: "pyfloat \<Rightarrow> bool" where
  \<comment> \<open>\<open>v > 1.0\<close>\<close>
  "fgt1 v = (case v of Fin r \<Rightarrow> 1 < r | PInf \<Rightarrow> True | NInf \<Rightarrow> False | NaN \<Rightarrow> False)"

section \<open>The regular expressions of the rate normalizer\<close>

text \<open>
  \<open>NUM_RE\<close> is \<open>\d+(?:[.,]\d+)?\<close> and \<open>PCT_RE\<close> is the same followed by \<open>\s*%\<close>.
  At a given position the greedy choice is the only one that can succeed: after a shorter
  run of digits the next character is a digit, which neither \<open>[.,]\<close>, \<open>\s\<close> nor \<open>%\<close>
  matches, and after the integer part alone the next character is the separator.
\<close>

definition match_num :: "string \<Rightarrow> (string \<times> string) option" where
  \<comment> \<open>\<open>NUM_RE\<close> at the start of the text: the group \<open>num\<close> and the rest of the text\<close>
  "match_num s =
     (let d1 = takeWhile isdecimal s; r1 = dropWhile isdecimal s in
      if d1 = [] then None
      else (case r1 of
              c # r2 \<Rightarrow>
                if (c = CHR ''.'' \<or> c = CHR '','') \<and> takeWhile isdecimal r2 \<noteq> []
                then Some (d1 @ c # takeWhile isdecimal r2, dropWhile isdecimal r2)
                else Some (d1, r1)
            | [] \<Rightarrow> Some (d1, r1)))"

definition match_pct :: "string \<Rightarrow> (string \<times> string) option" where
  \<comment> \<open>\<open>PCT_RE\<close> at the start of the text: the group \<open>num\<close> and the whole match\<close>
  "match_pct s = (case match_num s of
       None \<Rightarrow> None
     | Some (num, r) \<Rightarrow>
         (case dropWhile isspace r of
            c # _ \<Rightarrow> if c = CHR ''%'' then Some (num, num @ takeWhile isspace r @ ''%'')
                     else None
          | [] \<Rightarrow> None))"

fun pct_search :: "string \<Rightarrow> (string \<times> string) option" where
  \<comment> \<open>\<open>PCT_RE.search\<close>: the leftmost match\<close>
  "pct_search [] = None"
| "pct_search (c # cs) = (case match_pct (c # cs) of
       Some m \<Rightarrow> Some m
     | None \<Rightarrow> pct_search cs)"

fun num_scan :: "nat \<Rightarrow> string \<Rightarrow> string list" where
  \<comment> \<open>\<open>num_scan k s\<close>: the first \<open>k\<close> characters of \<open>s\<close> belong to the previous match\<close>
  "num_scan k [] = []"
| "num_scan k (c # cs) =
     (if 0 < k then num_scan (k - 1) cs
      else (case match_num (c # cs) of
              Some (num, r) \<Rightarrow> num # num_scan (length num - 1) cs
            | None \<Rightarrow> num_scan 0 cs))"

definition num_findall :: "string \<Rightarrow> string list" where
  \<comment> \<open>the groups \<open>num\<close> of \<open>NUM_RE.finditer\<close>: the matches from left to right, each search
      starting where the previous match ended\<close>
  "num_findall s = num_scan 0 s"

section \<open>Rate normalizer\<close>

definition MAX_USD_RATE :: rat where
  "MAX_USD_RATE = 35 / 100"

definition parse_percent :: "string \<Rightarrow> pyfloat" where
  "parse_percent raw =
     (let s = strip raw in
      if s = [] then Fin 0
      else (case pct_search s of
              Some (num, whole) \<Rightarrow>
                (case py_float (replace_comma num) of
                   Some v \<Rightarrow> fdiv100 v
                 | None \<Rightarrow> Fin 0)
            | None \<Rightarrow>
                (case py_float (replace_comma s) of
                   None \<Rightarrow> Fin 0
                 | Some v \<Rightarrow> if fgt1 v then fdiv100 v else v)))"

definition rate_accepted :: "pyfloat \<Rightarrow> rat option" where
  \<comment> \<open>the test \<open>0.0 < rate <= MAX_USD_RATE\<close>, false on the non-finite floats; the accepted
      rate is returned as the rational it is\<close>
  "rate_accepted v = (case v of
       Fin r \<Rightarrow> if 0 < r \<and> r \<le> MAX_USD_RATE then Some r else None
     | _ \<Rightarrow> None)"

fun first_accepted :: "string list \<Rightarrow> rat option" where
  \<comment> \<open>the loop \<open>for raw in nums[:4]\<close>, on the list already cut\<close>
  "first_accepted [] = None"
| "first_accepted (raw # raws) = (case rate_accepted (parse_percent raw) of
       Some r \<Rightarrow> Some r
     | None \<Rightarrow> first_accepted raws)"

definition extract_rate_from_text :: "string \<Rightarrow> rat option" where
  "extract_rate_from_text text =
     (let t = norm_py text in
      if t = [] then None
      else (case (case pct_search t of
                    Some (num, whole) \<Rightarrow> rate_accepted (parse_percent whole)
                  | None \<Rightarrow> None) of
              Some r \<Rightarrow> Some r
            | None \<Rightarrow>
                (let nums = num_findall t in
                 if nums = [] then None else first_accepted (take 4 nums))))"

section \<open>Keyword tuples, USD context, noise\<close>

definition USD_POS :: "string list" where
  \<comment> \<open>without the two Cyrillic tokens\<close>
  "USD_POS = [''usd'', ''us dollar'', ''dollar'', ''aqsh dollar'', ''aqsh doll'', ''$'']"

definition USD_NEG :: "string list" where
  \<comment> \<open>without the two Cyrillic tokens\<close>
  "USD_NEG = [''uzs'', ''so'' @ [CHR 0x27] @ ''m'', ''som'', ''sum'']"

definition DEPOSIT_LINK_HINTS :: "string list" where
  \<comment> \<open>without the two Cyrillic tokens\<close>
  "DEPOSIT_LINK_HINTS = [''deposit'', ''deposits'', ''omonat'', ''omonatlar'', ''vklad'',
     ''vklady'', ''savings'', ''saving'', ''term-deposit'', ''time-deposit'']"

definition RATE_HINTS :: "string list" where
  \<comment> \<open>without the two Cyrillic tokens\<close>
  "RATE_HINTS = [''rate'', ''annual'', ''stavka'', ''foiz'', ''yillik'', ''%'']"

definition NOISE_ALTERNATIVES :: "string list" where
  \<comment> \<open>the alternatives of \<open>NOISE_RE\<close>, all literal\<close>
  "NOISE_ALTERNATIVES = [''{'', ''}'', ''@font-face'', ''/*'', ''*/'', ''px'', ''rem'', ''vh'',
     ''vw'', ''var('', ''normalize.css'']"

definition noise_search :: "string \<Rightarrow> bool" where
  \<comment> \<open>\<open>NOISE_RE.search\<close>, case-insensitive\<close>
  "noise_search t = any_in NOISE_ALTERNATIVES (lower t)"

definition is_noise :: "string \<Rightarrow> bool" where
  "is_noise s = (let t = norm_py s in if length t < 2 then True else noise_search t)"

definition is_usd_context :: "string \<Rightarrow> bool" where
  "is_usd_context text =
     (let t = lower text in
      if any_in USD_NEG t \<and> \<not> any_in USD_POS t then False else any_in USD_POS t)"

section \<open>Exceptions and the library\<close>

datatype exn =
    Exn (cls: string) (msg: string)
  | RetryError (cls: string) (msg: string)
    \<comment> \<open>tenacity's \<open>RetryError\<close>, carrying the class name and the message of the exception
        of the last attempt\<close>

datatype node =
    Text string
  | Elem string "(string \<times> string) list" "node list"
    \<comment> \<open>a parsed element: tag name, attributes, children\<close>

datatype json =
    JNull | JBool bool | JInt int | JFloat pyfloat | JStr string
  | JArr "json list" | JObj "(string \<times> json) list"
    \<comment> \<open>a decoded JSON value; an object is the list of the items of its dictionary\<close>

record lib =
  bracketed_host_ok :: "string \<Rightarrow> bool"
    \<comment> \<open>whether \<open>urlsplit\<close> accepts a bracketed host (an IP literal)\<close>
  unquote_plus :: "string \<Rightarrow> string"
    \<comment> \<open>\<open>urllib.parse.unquote_plus\<close>\<close>
  urljoin :: "string \<Rightarrow> string \<Rightarrow> exn + string"
    \<comment> \<open>\<open>urllib.parse.urljoin\<close>\<close>
  lxml :: "string \<Rightarrow> node"
    \<comment> \<open>\<open>BeautifulSoup(html, "lxml")\<close>: the document as one root element\<close>
  py_str :: "json \<Rightarrow> string"
    \<comment> \<open>\<open>str(v)\<close> of a JSON value that is not a string\<close>
  json_url_findall :: "string \<Rightarrow> string list"
    \<comment> \<open>the groups \<open>u\<close> of \<open>JSON_URL_RE.finditer\<close>\<close>
  set_order :: "string list \<Rightarrow> string list"
    \<comment> \<open>the iteration order of a \<open>set\<close> of strings, given its elements in insertion
        order\<close>

section \<open>URLs\<close>

definition is_ascii_alpha :: "char \<Rightarrow> bool" where
  "is_ascii_alpha c = (let n = (of_char c :: nat) in
     (65 \<le> n \<and> n \<le> 90) \<or> (97 \<le> n \<and> n \<le> 122))"

definition scheme_char :: "char \<Rightarrow> bool" where
  "scheme_char c = (is_ascii_alpha c \<or> isdecimal c \<or> c = CHR ''+'' \<or> c = CHR ''-''
     \<or> c = CHR ''.'')"

definition url_clean :: "string \<Rightarrow> string" where
  \<comment> \<open>leading C0 controls and spaces are stripped, then tab, CR and LF are removed\<close>
  "url_clean url =
     filter (\<lambda>c. c \<noteq> CHR 0x09 \<and> c \<noteq> CHR 0x0D \<and> c \<noteq> CHR 0x0A)
       (dropWhile (\<lambda>c. (of_char c :: nat) \<le> 32) url)"

definition strip_scheme :: "string \<Rightarrow> string" where
  \<comment> \<open>the text after \<open>scheme:\<close> when the text before the first colon is a scheme\<close>
  "strip_scheme url =
     (let pre = takeWhile (\<lambda>c. c \<noteq> CHR '':'') url;
          rest = dropWhile (\<lambda>c. c \<noteq> CHR '':'') url
      in if rest \<noteq> [] \<and> pre \<noteq> [] \<and> is_ascii_alpha (hd pre) \<and> list_all scheme_char pre
         then tl rest else url)"

definition netloc_end :: "char \<Rightarrow> bool" where
  "netloc_end c = (c = CHR ''/'' \<or> c = CHR ''?'' \<or> c = CHR ''#'')"

definition urlsplit :: "lib \<Rightarrow> string \<Rightarrow> exn + (string \<times> string)" where
  \<comment> \<open>the components \<open>netloc\<close> and \<open>query\<close> of \<open>urlparse(url)\<close>; \<open>ValueError\<close> for
      an unmatched bracket in the network location, and for a bracketed host that the
      library refuses (its message there depends on the host)\<close>
  "urlsplit L url0 =
     (let url = strip_scheme (url_clean url0);
          has_netloc = startswith url ''//'';
          netloc = (if has_netloc then takeWhile (\<lambda>c. \<not> netloc_end c) (drop 2 url) else []);
          rest = (if has_netloc then dropWhile (\<lambda>c. \<not> netloc_end c) (drop 2 url) else url);
          lb = (CHR ''['' \<in> set netloc); rb = (CHR '']'' \<in> set netloc)
      in if (lb \<and> \<not> rb) \<or> (rb \<and> \<not> lb) then Inl (Exn ''ValueError'' ''Invalid IPv6 URL'')
         else if lb \<and> rb \<and> \<not> bracketed_host_ok L
                   (takeWhile (\<lambda>c. c \<noteq> CHR '']'')
                      (drop 1 (dropWhile (\<lambda>c. c \<noteq> CHR ''['') netloc)))
         then Inl (Exn ''ValueError'' ''invalid bracketed host'')
         else (let path_query = takeWhile (\<lambda>c. c \<noteq> CHR ''#'') rest
               in Inr (netloc, drop 1 (dropWhile (\<lambda>c. c \<noteq> CHR ''?'') path_query))))"

definition domain_of :: "lib \<Rightarrow> string \<Rightarrow> exn + string" where
  \<comment> \<open>\<open>urlparse(url).netloc.lower().lstrip("www.")\<close>: \<open>lstrip\<close> with an argument removes
      the leading characters that belong to the argument\<close>
  "domain_of L url = (case urlsplit L url of
       Inl e \<Rightarrow> Inl e
     | Inr (netloc, query) \<Rightarrow> Inr (dropWhile (\<lambda>c. c \<in> set ''www.'') (lower netloc)))"

definition same_domain :: "lib \<Rightarrow> string \<Rightarrow> string \<Rightarrow> exn + bool" where
  "same_domain L a b = (case domain_of L a of
       Inl e \<Rightarrow> Inl e
     | Inr da \<Rightarrow> (case domain_of L b of Inl e \<Rightarrow> Inl e | Inr db \<Rightarrow> Inr (da = db)))"

fun split_on :: "char \<Rightarrow> string \<Rightarrow> string \<Rightarrow> string list" where
  \<comment> \<open>\<open>s.split(sep)\<close> for a one-character separator; the second argument is the field
      read so far\<close>
  "split_on sep cur [] = [cur]"
| "split_on sep cur (c # cs) =
     (if c = sep then cur # split_on sep [] cs else split_on sep (cur @ [c]) cs)"

definition parse_qsl :: "lib \<Rightarrow> string \<Rightarrow> (string \<times> string) list" where
  \<comment> \<open>\<open>urllib.parse.parse_qsl\<close> with its defaults: fields without a value are dropped\<close>
  "parse_qsl L qs =
     (if qs = [] then []
      else concat (map (\<lambda>name_value.
             let name = takeWhile (\<lambda>c. c \<noteq> CHR ''='') name_value;
                 val = drop 1 (dropWhile (\<lambda>c. c \<noteq> CHR ''='') name_value)
             in if name_value \<noteq> [] \<and> val \<noteq> [] then [(unquote_plus L name, unquote_plus L val)]
                else [])
           (split_on (CHR ''&'') [] qs)))"

fun group_pairs :: "(string \<times> string list) list \<Rightarrow> (string \<times> string) list
    \<Rightarrow> (string \<times> string list) list" where
  \<comment> \<open>the dictionary that \<open>parse_qs\<close> builds: the values of a name in order, the names in
      the order of their first occurrence\<close>
  "group_pairs d [] = d"
| "group_pairs d ((k, v) # kvs) =
     group_pairs (if k \<in> fst ` set d
                  then map (\<lambda>(k', vs). if k' = k then (k', vs @ [v]) else (k', vs)) d
                  else d @ [(k, [v])]) kvs"

definition parse_qs :: "lib \<Rightarrow> string \<Rightarrow> (string \<times> string list) list" where
  "parse_qs L qs = group_pairs [] (parse_qsl L qs)"

definition page_forced_usd :: "lib \<Rightarrow> string \<Rightarrow> string \<Rightarrow> exn + bool" where
  "page_forced_usd L url soup_text =
     (let u = lower url in
      if contains u ''currency=usd'' \<or> contains u ''valyuta=usd'' \<or> contains u ''usd''
      then Inr True
      else (case urlsplit L url of
              Inl e \<Rightarrow> Inl e
            | Inr (netloc, query) \<Rightarrow>
                if list_ex (\<lambda>(k, v). (lower k = ''currency'' \<or> lower k = ''valyuta'')
                                     \<and> list_ex (\<lambda>x. lower x = ''usd'') v)
                     (parse_qs L query)
                then Inr True
                else (let t = lower soup_text in
                      if contains ('' '' @ t @ '' '') '' usd '' \<and> \<not> any_in USD_NEG t
                      then Inr True else Inr False)))"

text \<open>
  A library instance for evaluations at concrete inputs. It agrees with the library on
  the inputs it is used on: query strings and names without percent escapes or plus
  signs, absolute links, hosts without brackets.
\<close>

definition lib_plain :: lib where
  "lib_plain = \<lparr>bracketed_host_ok = (\<lambda>h. True), unquote_plus = (\<lambda>s. s),
     urljoin = (\<lambda>base href. Inr href), lxml = (\<lambda>html. Elem ''[document]'' [] []),
     py_str = (\<lambda>v. []), json_url_findall = (\<lambda>html. []), set_order = (\<lambda>xs. xs)\<rparr>"

section \<open>The rate normalizer as the specification words it\<close>

definition rate_candidates :: "string \<Rightarrow> string list" where
  \<comment> \<open>the texts the rate normalizer tries, in order: the leftmost percent pattern when
      there is one, then the first four bare numbers\<close>
  "rate_candidates t =
     (case pct_search t of Some (num, whole) \<Rightarrow> [whole] | None \<Rightarrow> []) @ take 4 (num_findall t)"

section \<open>Records and deduplication\<close>

text \<open>
  The dataclasses \<open>Deposit\<close> and \<open>SiteStatus\<close>; the fields carry a prefix, so that their
  names stay free for variables. A record is only built from a rate that passed a range
  test, so the field holds the rational.
\<close>

record Deposit =
  dep_bank :: string
  dep_site :: string
  dep_name :: string
  dep_rate :: rat
  dep_currency :: string
  dep_url :: string

record SiteStatus =
  st_input_url :: string
  st_domain :: string
  st_http_status :: "int option"
  st_signals :: string
  st_result :: string
  st_note :: string
  st_rows_found :: nat

definition setdefault :: "('k \<times> 'v) list \<Rightarrow> 'k \<Rightarrow> 'v \<Rightarrow> ('k \<times> 'v) list" where
  \<comment> \<open>\<open>dict.setdefault\<close> on a dictionary kept as the list of its items in insertion order\<close>
  "setdefault m k v = (if k \<in> set (map fst m) then m else m @ [(k, v)])"

definition dedup_key :: "Deposit \<Rightarrow> string \<times> string \<times> rat" where
  "dedup_key d = (dep_site d, lower (strip (dep_name d)), dep_rate d)"

definition dedup :: "Deposit list \<Rightarrow> Deposit list" where
  \<comment> \<open>\<open>_dedup\<close>\<close>
  "dedup items = map snd (foldl (\<lambda>uniq d. setdefault uniq (dedup_key d) d) [] items)"

text \<open>Two candidates of one key, found on two pages, for evaluations.\<close>

definition dep_first :: Deposit where
  "dep_first = \<lparr>dep_bank = ''Example Bank'', dep_site = ''bank.example'',
     dep_name = ''Premium Savings'', dep_rate = 72 / 1000, dep_currency = ''USD'',
     dep_url = ''https://bank.example/deposits''\<rparr>"

definition dep_second :: Deposit where
  "dep_second = \<lparr>dep_bank = ''Example Bank'', dep_site = ''bank.example'',
     dep_name = ''premium savings '', dep_rate = 72 / 1000, dep_currency = ''USD'',
     dep_url = ''https://bank.example/deposits/premium''\<rparr>"

section \<open>Forced USD as the specification words it\<close>

definition url_pins_usd :: "lib \<Rightarrow> string \<Rightarrow> bool" where
  \<comment> \<open>the URL pins the page to USD by a currency query parameter\<close>
  "url_pins_usd L url =
     (contains (lower url) ''currency=usd'' \<or> contains (lower url) ''valyuta=usd''
      \<or> (case urlsplit L url of
            Inl e \<Rightarrow> False
          | Inr (netloc, query) \<Rightarrow>
              list_ex (\<lambda>(k, v). (lower k = ''currency'' \<or> lower k = ''valyuta'')
                                   \<and> list_ex (\<lambda>x. lower x = ''usd'') v)
                (parse_qs L query)))"

definition text_mentions_usd :: "string \<Rightarrow> bool" where
  \<comment> \<open>the page text has \<open>usd\<close> as a token between spaces and no non-USD marker\<close>
  "text_mentions_usd soup_text =
     (contains ('' '' @ lower soup_text @ '' '') '' usd ''
      \<and> \<not> any_in USD_NEG (lower soup_text))"

section \<open>Block diagnoser\<close>

record Response =
  status_code :: int
  headers :: "(string \<times> string) list"
    \<comment> \<open>the items of \<open>r.headers\<close>\<close>
  body_text :: string
    \<comment> \<open>\<open>r.text\<close>\<close>
  json_body :: "exn + json"
    \<comment> \<open>what \<open>r.json()\<close> returns or raises\<close>

definition header_get :: "(string \<times> string) list \<Rightarrow> string \<Rightarrow> string option" where
  \<comment> \<open>the lookup of a header whatever the case of its name; the second argument is in
      lower case\<close>
  "header_get hs name = (case filter (\<lambda>(k, v). lower k = name) hs of
       [] \<Rightarrow> None
     | kv # kvs \<Rightarrow> Some (snd (last (kv # kvs))))"

definition header_present :: "(string \<times> string) list \<Rightarrow> string \<Rightarrow> bool" where
  \<comment> \<open>\<open>name in hdr\<close>, for \<open>hdr\<close> the headers under their lower-cased names\<close>
  "header_present hs name = list_ex (\<lambda>(k, v). lower k = name) hs"

fun str_nat :: "nat \<Rightarrow> string" where
  "str_nat n = (if n < 10 then [''0123456789'' ! n]
     else str_nat (n div 10) @ [''0123456789'' ! (n mod 10)])"

declare str_nat.simps [simp del]

definition str_int :: "int \<Rightarrow> string" where
  \<comment> \<open>\<open>str\<close> of an \<open>int\<close>\<close>
  "str_int i = (if i < 0 then ''-'' @ str_nat (nat (- i)) else str_nat (nat i))"

definition ANTI_COOKIES :: "string list" where
  \<comment> \<open>the alternatives of \<open>ANTI_COOKIES_RE\<close>, all literal\<close>
  "ANTI_COOKIES = [''cf_clearance'', ''__cf_bm'', ''_abck'', ''bm_sz'', ''ak_bmsc'']"

definition ANTI_BODY :: "string list" where
  \<comment> \<open>the alternatives of \<open>ANTI_BODY_RE\<close>, all literal\<close>
  "ANTI_BODY = [''captcha'', ''hcaptcha'', ''recaptcha'', ''checking your browser'',
     ''just a moment'', ''access denied'', ''request blocked'', ''cf-challenge'',
     ''challenge-platform'', ''enable javascript'', ''javascript required'']"

definition MOUNT_IDS :: "string list" where
  \<comment> \<open>what \<open>id=['"]app['"]\<close> and \<open>id=['"]root['"]\<close> match, in lower case\<close>
  "MOUNT_IDS = concat (map (\<lambda>n. concat (map (\<lambda>q1. map (\<lambda>q2. ''id='' @ [q1] @ n @ [q2])
       [CHR 0x27, CHR 0x22]) [CHR 0x27, CHR 0x22])) [''app'', ''root''])"

definition mount_here :: "string \<Rightarrow> bool" where
  \<comment> \<open>the attribute at the start of the text, then \<open>[^>]*>\<close>\<close>
  "mount_here s = list_ex (\<lambda>p. startswith s p \<and> CHR ''>'' \<in> set (drop (length p) s)) MOUNT_IDS"

fun mount_after :: "bool \<Rightarrow> string \<Rightarrow> bool" where
  \<comment> \<open>\<open>[^>]+\<close> and then the attribute; the flag says that a character was skipped\<close>
  "mount_after seen [] = False"
| "mount_after seen (c # cs) =
     ((seen \<and> mount_here (c # cs)) \<or> (c \<noteq> CHR ''>'' \<and> mount_after True cs))"

fun js_shell_search :: "string \<Rightarrow> bool" where
  \<comment> \<open>\<open>JS_SHELL_RE.search\<close> on the lower-cased text\<close>
  "js_shell_search [] = False"
| "js_shell_search (c # cs) =
     ((startswith (c # cs) ''<div'' \<and> mount_after False (drop 4 (c # cs)))
      \<or> js_shell_search cs)"

definition looks_js_empty :: "string \<Rightarrow> bool" where
  "looks_js_empty html =
     (let t = strip html in
      if length t < 1500 then True
      else if js_shell_search (lower t) \<and> CHR ''%'' \<notin> set t \<and> \<not> contains (lower t) ''usd''
      then True else False)"

definition diagnose_signals :: "Response \<Rightarrow> string list" where
  \<comment> \<open>the list \<open>signals\<close> of \<open>diagnose_response\<close>\<close>
  "diagnose_signals r =
     (let hs = headers r;
          body = take 20000 (body_text r);
          cookie_blob = (case header_get hs ''set-cookie'' of Some v \<Rightarrow> v | None \<Rightarrow> [])
      in (if status_code r = 401 \<or> status_code r = 403 \<or> status_code r = 429
              \<or> status_code r = 503
          then [''status='' @ str_int (status_code r)] else [])
       @ (if header_present hs ''cf-ray''
             \<or> contains (lower (case header_get hs ''server'' of Some v \<Rightarrow> v | None \<Rightarrow> []))
                  ''cloudflare''
          then [''cloudflare''] else [])
       @ (if header_present hs ''x-sucuri-id'' \<or> header_present hs ''x-sucuri-cache''
          then [''sucuri''] else [])
       @ (if any_in ANTI_COOKIES (lower cookie_blob) then [''antibot_cookie''] else [])
       @ (if any_in ANTI_BODY (lower body) then [''antibot_page''] else [])
       @ (if status_code r = 200 \<and> looks_js_empty (body_text r)
          then [''thin_html_or_js_shell''] else []))"

definition diagnose_response :: "string \<Rightarrow> Response \<Rightarrow> int \<times> string" where
  "diagnose_response url r = (status_code r, join '','' (diagnose_signals r))"

definition is_hard_block :: "int option \<Rightarrow> string \<Rightarrow> bool" where
  "is_hard_block status signals =
     (if status = Some 401 \<or> status = Some 403 \<or> status = Some 429 \<or> status = Some 503
      then True
      else (let s = lower signals;
                has_waf = (contains s ''cloudflare'' \<or> contains s ''sucuri'');
                has_antibot = (contains s ''antibot_cookie'' \<or> contains s ''antibot_page'')
            in has_waf \<and> has_antibot))"

definition SIGNAL_TAGS :: "string list" where
  \<comment> \<open>the signal tags that \<open>diagnose_response\<close> can emit\<close>
  "SIGNAL_TAGS = [''status=401'', ''status=403'', ''status=429'', ''status=503'',
     ''cloudflare'', ''sucuri'', ''antibot_cookie'', ''antibot_page'',
     ''thin_html_or_js_shell'']"

text \<open>A response behind a WAF that sets an anti-bot cookie, for evaluations.\<close>

definition resp_waf_cookie :: Response where
  "resp_waf_cookie = \<lparr>status_code = 200,
     headers = [(''Server'', ''cloudflare''), (''Set-Cookie'', ''__cf_bm=abc; path=/'')],
     body_text = ''<html><body>Deposits</body></html>'', json_body = Inl (Exn ''JSONDecodeError'' [])\<rparr>"

section \<open>Parsed documents\<close>

text \<open>
  What the source asks of a BeautifulSoup tree: the elements below a node in document
  order, the first of them with a given tag, the text of a node and an attribute.
\<close>

fun descendants :: "node \<Rightarrow> node list" where
  "descendants (Text s) = []"
| "descendants (Elem t attrs kids) = concat (map (\<lambda>k. k # descendants k) kids)"

fun is_tag :: "string list \<Rightarrow> node \<Rightarrow> bool" where
  "is_tag names (Text s) = False"
| "is_tag names (Elem t attrs kids) = (t \<in> set names)"

definition find_all :: "string list \<Rightarrow> node \<Rightarrow> node list" where
  "find_all names n = filter (is_tag names) (descendants n)"

definition find_first :: "string \<Rightarrow> node \<Rightarrow> node option" where
  \<comment> \<open>\<open>n.find(name)\<close>\<close>
  "find_first name n = (case find_all [name] n of [] \<Rightarrow> None | x # xs \<Rightarrow> Some x)"

fun strings :: "node \<Rightarrow> string list" where
  "strings (Text s) = [s]"
| "strings (Elem t attrs kids) = concat (map strings kids)"

definition get_text :: "node \<Rightarrow> string" where
  \<comment> \<open>\<open>n.get_text(" ", strip=True)\<close>\<close>
  "get_text n = join '' '' (filter (\<lambda>s. s \<noteq> []) (map strip (strings n)))"

fun attr :: "string \<Rightarrow> node \<Rightarrow> string option" where
  "attr a (Text s) = None"
| "attr a (Elem t attrs kids) = map_of attrs a"

fun decompose :: "string list \<Rightarrow> node \<Rightarrow> node" where
  \<comment> \<open>the tree without the elements of the given tags\<close>
  "decompose names (Text s) = Text s"
| "decompose names (Elem t attrs kids) =
     Elem t attrs (map (decompose names) (filter (\<lambda>k. \<not> is_tag names k) kids))"

definition clean_soup :: "lib \<Rightarrow> string \<Rightarrow> node" where
  "clean_soup L html = decompose [''script'', ''style'', ''noscript''] (lxml L html)"

definition best_bank_name :: "node \<Rightarrow> string" where
  "best_bank_name soup =
     (let v = (case find_first ''h1'' soup of
                 Some h1 \<Rightarrow> norm_py (get_text h1)
               | None \<Rightarrow> [])
      in if v \<noteq> [] then take 80 v
         else (let title = norm_py (case find_first ''title'' soup of
                                      Some n \<Rightarrow> get_text n
                                    | None \<Rightarrow> [])
               in if title \<noteq> [] then take 80 title else ''Unknown Bank''))"

fun pick_name_tags :: "string list \<Rightarrow> node \<Rightarrow> string option" where
  \<comment> \<open>the loop of \<open>_pick_name_from_block\<close> over the tags\<close>
  "pick_name_tags [] block = None"
| "pick_name_tags (tag # tags) block =
     (case find_first tag block of
        Some n \<Rightarrow>
          (let s = norm_py (get_text n) in
           if s \<noteq> [] \<and> \<not> is_noise s then Some s else pick_name_tags tags block)
      | None \<Rightarrow> pick_name_tags tags block)"

definition pick_name_from_block :: "node \<Rightarrow> string" where
  "pick_name_from_block block =
     (case pick_name_tags [''h1'', ''h2'', ''h3'', ''h4'', ''strong'', ''b'', ''a''] block of
        Some s \<Rightarrow> s
      | None \<Rightarrow> take 120 (norm_py (get_text block)))"

section \<open>Link harvesting\<close>

definition is_http :: "string \<Rightarrow> bool" where
  \<comment> \<open>\<open>u.startswith(("http://", "https://"))\<close>\<close>
  "is_http u = (startswith u ''http://'' \<or> startswith u ''https://'')"

definition href_of :: "node \<Rightarrow> string" where
  \<comment> \<open>\<open>a["href"].strip()\<close>\<close>
  "href_of a = (case attr ''href'' a of Some h \<Rightarrow> strip h | None \<Rightarrow> [])"

definition anchors :: "node \<Rightarrow> node list" where
  \<comment> \<open>\<open>soup.find_all("a", href=True)\<close>\<close>
  "anchors soup = filter (\<lambda>a. attr ''href'' a \<noteq> None) (find_all [''a''] soup)"

definition link_wanted :: "string \<Rightarrow> string \<Rightarrow> bool" where
  \<comment> \<open>the two tests of \<open>_collect_links\<close> that append the link\<close>
  "link_wanted lu txt =
     (if any_in DEPOSIT_LINK_HINTS lu \<or> any_in DEPOSIT_LINK_HINTS txt then True
      else contains lu ''usd'' \<or> contains lu ''currency=usd'' \<or> contains lu ''valyuta=usd''
           \<or> contains lu ''$'')"

fun collect_links_loop :: "lib \<Rightarrow> string \<Rightarrow> nat \<Rightarrow> node list \<Rightarrow> string set \<Rightarrow> string list
    \<Rightarrow> exn + string list" where
  \<comment> \<open>the loop of \<open>_collect_links\<close> over the anchors, with \<open>seen\<close> and \<open>out\<close>\<close>
  "collect_links_loop L base_url limit [] seen out = Inr out"
| "collect_links_loop L base_url limit (a # as) seen out =
     (if href_of a = [] then collect_links_loop L base_url limit as seen out
      else (case urljoin L base_url (href_of a) of
              Inl e \<Rightarrow> Inl e
            | Inr u \<Rightarrow>
                if \<not> is_http u then collect_links_loop L base_url limit as seen out
                else (case same_domain L base_url u of
                        Inl e \<Rightarrow> Inl e
                      | Inr same \<Rightarrow>
                          if \<not> same then collect_links_loop L base_url limit as seen out
                          else if u \<in> seen then collect_links_loop L base_url limit as seen out
                          else (let out' = (if link_wanted (lower u)
                                                  (lower (norm_py (get_text a)))
                                            then out @ [u] else out)
                                in if limit \<le> length out' then Inr out'
                                   else collect_links_loop L base_url limit as
                                          (insert u seen) out'))))"

definition collect_links :: "lib \<Rightarrow> string \<Rightarrow> node \<Rightarrow> nat \<Rightarrow> exn + string list" where
  "collect_links L base_url soup limit =
     collect_links_loop L base_url limit (anchors soup) {} []"

section \<open>Extraction engine\<close>

fun gather :: "('a \<Rightarrow> exn + 'b list) \<Rightarrow> 'a list \<Rightarrow> exn + 'b list" where
  \<comment> \<open>a loop that extends one list and stops at the first exception\<close>
  "gather f [] = Inr []"
| "gather f (x # xs) = (case f x of
       Inl e \<Rightarrow> Inl e
     | Inr ys \<Rightarrow> (case gather f xs of Inl e \<Rightarrow> Inl e | Inr zs \<Rightarrow> Inr (ys @ zs)))"

fun first_index :: "('a \<Rightarrow> bool) \<Rightarrow> 'a list \<Rightarrow> nat option" where
  \<comment> \<open>the index that the loop over \<open>enumerate(headers)\<close> keeps: the first that matches\<close>
  "first_index P [] = None"
| "first_index P (x # xs) = (if P x then Some 0 else map_option Suc (first_index P xs))"

definition cell_text :: "nat option \<Rightarrow> node list \<Rightarrow> string option" where
  \<comment> \<open>the text of the cell of a column, when the column is known and the row has it\<close>
  "cell_text idx cells = (case idx of
       Some i \<Rightarrow> if i < length cells then Some (norm_py (get_text (cells ! i))) else None
     | None \<Rightarrow> None)"

definition non_usd_only :: "string \<Rightarrow> bool" where
  \<comment> \<open>a non-USD marker and no USD marker\<close>
  "non_usd_only t = (any_in USD_NEG (lower t) \<and> \<not> any_in USD_POS (lower t))"

definition make_deposit :: "lib \<Rightarrow> string \<Rightarrow> string \<Rightarrow> string \<Rightarrow> rat \<Rightarrow> exn + Deposit list" where
  \<comment> \<open>\<open>Deposit(bank=bank, site=domain_of(url), name=name, rate=rate, currency="USD",
      url=url)\<close>, as the list that the caller appends\<close>
  "make_deposit L url bank_name dname r = (case domain_of L url of
       Inl e \<Rightarrow> Inl e
     | Inr d \<Rightarrow> Inr [\<lparr>dep_bank = bank_name, dep_site = d, dep_name = dname, dep_rate = r,
                      dep_currency = ''USD'', dep_url = url\<rparr>])"

definition table_row :: "lib \<Rightarrow> string \<Rightarrow> string \<Rightarrow> bool \<Rightarrow> nat option \<Rightarrow> nat option
    \<Rightarrow> nat option \<Rightarrow> node \<Rightarrow> exn + Deposit list" where
  \<comment> \<open>one pass of the loop over the data rows of a table\<close>
  "table_row L url bank_name forced_usd cur_idx rate_idx name_idx tr =
     (let cells = find_all [''td'', ''th''] tr; row_text = norm_py (get_text tr);
          cur_text = (case cell_text cur_idx cells of Some t \<Rightarrow> t | None \<Rightarrow> [])
      in if cells = [] then Inr []
         else if is_noise row_text then Inr []
         else if \<not> (forced_usd \<or> is_usd_context row_text \<or> is_usd_context cur_text)
         then Inr []
         else if non_usd_only row_text then Inr []
         else (case extract_rate_from_text
                      (case cell_text rate_idx cells of Some t \<Rightarrow> t | None \<Rightarrow> row_text) of
                 None \<Rightarrow> Inr []
               | Some r \<Rightarrow>
                   (let name0 = (case cell_text name_idx cells of Some t \<Rightarrow> t | None \<Rightarrow> []);
                        dname = (if name0 = [] then pick_name_from_block tr else name0)
                    in if dname = [] \<or> is_noise dname then Inr []
                       else make_deposit L url bank_name dname r)))"

definition extract_from_table :: "lib \<Rightarrow> string \<Rightarrow> string \<Rightarrow> bool \<Rightarrow> node
    \<Rightarrow> exn + Deposit list" where
  \<comment> \<open>one pass of the loop over the tables; the tests of the header cells are
      without their Cyrillic words\<close>
  "extract_from_table L url bank_name forced_usd table =
     (let rows = find_all [''tr''] table in
      if length rows < 2 then Inr []
      else (let hdrs = map (\<lambda>x. lower (norm_py (get_text x)))
                         (find_all [''th'', ''td''] (hd rows));
                cur_idx = first_index (\<lambda>h. contains h ''currency'' \<or> contains h ''valyuta''
                                            \<or> contains h ''usd'') hdrs;
                rate_idx = first_index (any_in RATE_HINTS) hdrs;
                name_idx = first_index (\<lambda>h. contains h ''deposit'' \<or> contains h ''omonat'') hdrs
            in gather (table_row L url bank_name forced_usd cur_idx rate_idx name_idx)
                 (tl rows)))"

definition extract_from_tables :: "lib \<Rightarrow> node \<Rightarrow> string \<Rightarrow> string \<Rightarrow> bool
    \<Rightarrow> exn + Deposit list" where
  "extract_from_tables L soup url bank_name forced_usd =
     gather (extract_from_table L url bank_name forced_usd) (find_all [''table''] soup)"

definition NON_CONTENT :: "string list" where
  "NON_CONTENT = [''cookie'', ''privacy'', ''policy'', ''search'', ''subscribe'']"

definition block_candidate :: "lib \<Rightarrow> string \<Rightarrow> string \<Rightarrow> bool \<Rightarrow> node \<Rightarrow> exn + Deposit list" where
  \<comment> \<open>one pass of the loop of \<open>_extract_from_blocks\<close>\<close>
  "block_candidate L url bank_name forced_usd block =
     (let bt = norm_py (get_text block) in
      if bt = [] \<or> is_noise bt then Inr []
      else if \<not> list_ex isdigit bt then Inr []
      else if \<not> (CHR ''%'' \<in> set bt \<or> any_in RATE_HINTS (lower bt)) then Inr []
      else if \<not> (forced_usd \<or> is_usd_context bt) then Inr []
      else if non_usd_only bt then Inr []
      else (case extract_rate_from_text bt of
              None \<Rightarrow> Inr []
            | Some r \<Rightarrow>
                (let dname = pick_name_from_block block in
                 if dname = [] then Inr []
                 else if is_noise dname then Inr []
                 else if any_in NON_CONTENT (lower dname) then Inr []
                 else make_deposit L url bank_name dname r)))"

definition extract_from_blocks :: "lib \<Rightarrow> node \<Rightarrow> string \<Rightarrow> string \<Rightarrow> bool
    \<Rightarrow> exn + Deposit list" where
  "extract_from_blocks L soup url bank_name forced_usd =
     gather (block_candidate L url bank_name forced_usd)
       (find_all [''tr'', ''article'', ''li'', ''section'', ''div''] soup)"

section \<open>Network\<close>

text \<open>
  The network is a state \<open>'w\<close> that each request reads and changes. \<open>fetch\<close> is the
  source's: up to three attempts, each failing on an exception of the request or on a
  status from 400 to 599, and \<open>RetryError\<close> after the third failure. The waits between
  the attempts are not modelled.
\<close>

record 'w net =
  http_get :: "string \<Rightarrow> 'w \<Rightarrow> (exn + Response) \<times> 'w"
    \<comment> \<open>\<open>session.get(url, timeout=25, allow_redirects=True)\<close>\<close>
  http_error_msg :: "Response \<Rightarrow> string"
    \<comment> \<open>the message of the \<open>HTTPError\<close> that \<open>raise_for_status\<close> raises\<close>

definition fetch_once :: "'w net \<Rightarrow> string \<Rightarrow> 'w \<Rightarrow> (exn + Response) \<times> 'w" where
  "fetch_once N url w = (case http_get N url w of
       (Inl e, w') \<Rightarrow> (Inl e, w')
     | (Inr r, w') \<Rightarrow>
         if 400 \<le> status_code r \<and> status_code r < 600
         then (Inl (Exn ''HTTPError'' (http_error_msg N r)), w')
         else (Inr r, w'))"

fun fetch_attempts :: "nat \<Rightarrow> 'w net \<Rightarrow> string \<Rightarrow> 'w \<Rightarrow> (exn + Response) \<times> 'w" where
  \<comment> \<open>the attempts that are left after the current one\<close>
  "fetch_attempts n N url w = (case fetch_once N url w of
       (Inr r, w') \<Rightarrow> (Inr r, w')
     | (Inl e, w') \<Rightarrow>
         (case n of
            0 \<Rightarrow> (Inl (RetryError (cls e) (msg e)), w')
          | Suc k \<Rightarrow> fetch_attempts k N url w'))"

definition fetch :: "'w net \<Rightarrow> string \<Rightarrow> 'w \<Rightarrow> (exn + Response) \<times> 'w" where
  "fetch N url w = fetch_attempts 2 N url w"

section \<open>JSON endpoints\<close>

fun is_scalar :: "json \<Rightarrow> bool" where
  \<comment> \<open>\<open>isinstance(v, (str, int, float))\<close>; a \<open>bool\<close> is an \<open>int\<close>\<close>
  "is_scalar (JStr s) = True"
| "is_scalar (JInt i) = True"
| "is_scalar (JFloat f) = True"
| "is_scalar (JBool b) = True"
| "is_scalar v = False"

definition str_of :: "lib \<Rightarrow> json \<Rightarrow> string" where
  \<comment> \<open>\<open>str(v)\<close>\<close>
  "str_of L v = (case v of JStr s \<Rightarrow> s | _ \<Rightarrow> py_str L v)"

fun first_str_field :: "string list \<Rightarrow> (string \<times> json) list \<Rightarrow> string option" where
  \<comment> \<open>the loops \<open>for k in (...): if k in obj and isinstance(obj[k], str): ...; break\<close>\<close>
  "first_str_field [] obj = None"
| "first_str_field (k # ks) obj = (case map_of obj k of
       Some (JStr s) \<Rightarrow> Some s
     | _ \<Rightarrow> first_str_field ks obj)"

fun first_scalar_field :: "string list \<Rightarrow> (string \<times> json) list \<Rightarrow> json option" where
  "first_scalar_field [] obj = None"
| "first_scalar_field (k # ks) obj = (case map_of obj k of
       Some v \<Rightarrow> if is_scalar v then Some v else first_scalar_field ks obj
     | None \<Rightarrow> first_scalar_field ks obj)"

definition upper :: "string \<Rightarrow> string" where
  \<comment> \<open>\<open>s.upper()\<close>, compared with \<open>USD\<close> only: the three letters below 256 whose upper
      case is another text are left as they are, and are not letters of \<open>USD\<close>\<close>
  "upper s = map upper_char s"

definition json_object_candidate :: "lib \<Rightarrow> (string \<times> json) list \<Rightarrow> string \<Rightarrow> string
    \<Rightarrow> exn + Deposit list" where
  \<comment> \<open>what \<open>_walk_json\<close> appends for one object; the key list of the currency is without
      its Cyrillic key\<close>
  "json_object_candidate L obj url bank_name =
     (let t = join '' '' (map (\<lambda>v. norm_py (str_of L v)) (filter is_scalar (map snd obj)));
          lt = lower t;
          currency = (case first_str_field [''currency'', ''valyuta''] obj of
                        Some s \<Rightarrow> upper (strip s)
                      | None \<Rightarrow> [])
      in if currency = ''USD'' \<or> (is_usd_context t \<and> contains lt ''usd'')
         then (let rate_raw = (case first_scalar_field [''percent'', ''rate'', ''stavka'', ''foiz'']
                                      obj of
                                 Some v \<Rightarrow> str_of L v
                               | None \<Rightarrow> [])
               in case extract_rate_from_text (if rate_raw \<noteq> [] then rate_raw else t) of
                    None \<Rightarrow> Inr []
                  | Some r \<Rightarrow>
                      (let name0 = (case first_str_field [''name'', ''title'', ''deposit'',
                                           ''product'', ''caption''] obj of
                                      Some s \<Rightarrow> norm_py s
                                    | None \<Rightarrow> []);
                           dname = (if name0 = [] then bank_name else name0)
                       in make_deposit L url bank_name (take 120 dname) r))
         else Inr [])"

fun sequence :: "(exn + 'b list) list \<Rightarrow> exn + 'b list" where
  \<comment> \<open>the results of a loop in order, up to the first exception\<close>
  "sequence [] = Inr []"
| "sequence (x # xs) = (case x of
       Inl e \<Rightarrow> Inl e
     | Inr ys \<Rightarrow> (case sequence xs of Inl e \<Rightarrow> Inl e | Inr zs \<Rightarrow> Inr (ys @ zs)))"

fun walk_json :: "lib \<Rightarrow> string \<Rightarrow> string \<Rightarrow> json \<Rightarrow> exn + Deposit list" where
  \<comment> \<open>\<open>_walk_json\<close>: the records it appends to \<open>out\<close>\<close>
  "walk_json L url bank_name (JObj obj) =
     sequence (json_object_candidate L obj url bank_name
               # map (\<lambda>v. walk_json L url bank_name v) (map snd obj))"
| "walk_json L url bank_name (JArr items) = sequence (map (walk_json L url bank_name) items)"
| "walk_json L url bank_name v = Inr []"

fun add_once :: "string list \<Rightarrow> string \<Rightarrow> string list" where
  \<comment> \<open>\<open>found.add(u)\<close>, the set kept as the list of its elements in insertion order\<close>
  "add_once found u = (if u \<in> set found then found else found @ [u])"

fun discover_hrefs :: "lib \<Rightarrow> string \<Rightarrow> node list \<Rightarrow> string list \<Rightarrow> exn + string list" where
  \<comment> \<open>the loop of \<open>_discover_json_urls\<close> over the anchors\<close>
  "discover_hrefs L base_url [] found = Inr found"
| "discover_hrefs L base_url (a # as) found =
     (let href = href_of a; h = lower href in
      if href = [] then discover_hrefs L base_url as found
      else if contains h ''/api/'' \<or> contains h ''get_list_pages'' \<or> endswith h ''.json''
      then (case urljoin L base_url href of
              Inl e \<Rightarrow> Inl e
            | Inr u \<Rightarrow> discover_hrefs L base_url as (add_once found u))
      else discover_hrefs L base_url as found)"

definition discover_json_urls :: "lib \<Rightarrow> string \<Rightarrow> string \<Rightarrow> exn + string list" where
  "discover_json_urls L base_url html =
     (case discover_hrefs L base_url (anchors (lxml L html))
             (foldl add_once [] (json_url_findall L html)) of
        Inl e \<Rightarrow> Inl e
      | Inr found \<Rightarrow>
          (case gather (\<lambda>u. if is_http u
                             then (case same_domain L base_url u of
                                     Inl e \<Rightarrow> Inl e
                                   | Inr same \<Rightarrow> Inr (if same then [u] else []))
                             else Inr [])
                  (set_order L found) of
             Inl e \<Rightarrow> Inl e
           | Inr out \<Rightarrow> Inr (take 40 out)))"

definition json_endpoint :: "lib \<Rightarrow> 'w net \<Rightarrow> string \<Rightarrow> string \<Rightarrow> 'w \<Rightarrow> Deposit list \<times> 'w" where
  \<comment> \<open>one pass of the loop of \<open>_extract_from_json_endpoints\<close>: every exception is caught\<close>
  "json_endpoint L N bank_name jurl w = (case fetch N jurl w of
       (Inl e, w') \<Rightarrow> ([], w')
     | (Inr r, w') \<Rightarrow>
         (let ct = lower (case header_get (headers r) ''content-type'' of
                            Some v \<Rightarrow> v | None \<Rightarrow> []);
              txt = strip (body_text r)
          in if \<not> contains ct ''json'' \<and> \<not> (startswith txt ''{'' \<or> startswith txt ''['')
             then ([], w')
             else (case json_body r of
                     Inl e \<Rightarrow> ([], w')
                   | Inr data \<Rightarrow>
                       (case walk_json L jurl bank_name data of
                          Inl e \<Rightarrow> ([], w')
                        | Inr ds \<Rightarrow> (ds, w')))))"

fun json_endpoints_loop :: "lib \<Rightarrow> 'w net \<Rightarrow> string \<Rightarrow> string list \<Rightarrow> 'w \<Rightarrow> Deposit list \<times> 'w"
  where
  "json_endpoints_loop L N bank_name [] w = ([], w)"
| "json_endpoints_loop L N bank_name (jurl # jurls) w =
     (case json_endpoint L N bank_name jurl w of
        (ds, w') \<Rightarrow> (case json_endpoints_loop L N bank_name jurls w' of
                       (ds', w'') \<Rightarrow> (ds @ ds', w'')))"

definition extract_from_json_endpoints :: "lib \<Rightarrow> 'w net \<Rightarrow> string \<Rightarrow> string \<Rightarrow> string \<Rightarrow> 'w
    \<Rightarrow> (exn + Deposit list) \<times> 'w" where
  "extract_from_json_endpoints L N page_url bank_name html w =
     (case discover_json_urls L page_url html of
        Inl e \<Rightarrow> (Inl e, w)
      | Inr jurls \<Rightarrow> (case json_endpoints_loop L N bank_name jurls w of
                        (ds, w') \<Rightarrow> (Inr ds, w')))"

section \<open>Crawl frontier\<close>

text \<open>
  The state of the loop of \<open>_parse_universal\<close>: the set \<open>visited\<close>, the queue \<open>q\<close> and the
  list \<open>all_deps\<close>. The field \<open>cs_pages\<close> is not in the source: it logs, in order, the
  URLs for which the loop body went past the test \<open>u in visited\<close>.
\<close>

record crawl_state =
  cs_visited :: "string fset"
  cs_q :: "(string \<times> nat) list"
  cs_all_deps :: "Deposit list"
  cs_pages :: "string list"

definition crawl_page :: "lib \<Rightarrow> 'w net \<Rightarrow> string \<Rightarrow> nat \<Rightarrow> string fset \<Rightarrow> 'w
    \<Rightarrow> (exn + Deposit list \<times> (string \<times> nat) list) \<times> 'w" where
  \<comment> \<open>the loop body after \<open>visited.add(u)\<close>: the candidates of the page and the entries
      appended to the queue\<close>
  "crawl_page L N u depth visited w = (case fetch N u w of
       (Inl e, w1) \<Rightarrow> (Inl e, w1)
     | (Inr r, w1) \<Rightarrow>
         (let html = body_text r; soup = clean_soup L html; bank_name = best_bank_name soup;
              page_text = norm_py (get_text soup)
          in case page_forced_usd L u page_text of
               Inl e \<Rightarrow> (Inl e, w1)
             | Inr forced_usd \<Rightarrow>
                 (case extract_from_tables L soup u bank_name forced_usd of
                    Inl e \<Rightarrow> (Inl e, w1)
                  | Inr d1 \<Rightarrow>
                      (case extract_from_blocks L soup u bank_name forced_usd of
                         Inl e \<Rightarrow> (Inl e, w1)
                       | Inr d2 \<Rightarrow>
                           (case (if d1 @ d2 = []
                                  then extract_from_json_endpoints L N u bank_name html w1
                                  else (Inr [], w1)) of
                              (Inl e, w2) \<Rightarrow> (Inl e, w2)
                            | (Inr d3, w2) \<Rightarrow>
                                if depth < 1
                                then (case collect_links L u soup 200 of
                                        Inl e \<Rightarrow> (Inl e, w2)
                                      | Inr links \<Rightarrow>
                                          (Inr (d1 @ d2 @ d3,
                                                map (\<lambda>link. (link, depth + 1))
                                                  (filter (\<lambda>link. link |\<notin>| visited) links)),
                                           w2))
                                else (Inr (d1 @ d2 @ d3, []), w2))))))"

definition crawl_step :: "lib \<Rightarrow> 'w net \<Rightarrow> crawl_state \<Rightarrow> 'w \<Rightarrow> (exn + crawl_state) \<times> 'w" where
  \<comment> \<open>one pass of the loop body\<close>
  "crawl_step L N s w = (case cs_q s of
       [] \<Rightarrow> (Inr s, w)
     | (u, depth) # rest \<Rightarrow>
         if u |\<in>| cs_visited s then (Inr (s\<lparr>cs_q := rest\<rparr>), w)
         else (case crawl_page L N u depth (finsert u (cs_visited s)) w of
                 (Inl e, w') \<Rightarrow> (Inl e, w')
               | (Inr (deps, new), w') \<Rightarrow>
                   (Inr \<lparr>cs_visited = finsert u (cs_visited s), cs_q = rest @ new,
                         cs_all_deps = cs_all_deps s @ deps, cs_pages = cs_pages s @ [u]\<rparr>,
                    w')))"

definition crawl_continues :: "crawl_state \<Rightarrow> bool" where
  \<comment> \<open>the loop test \<open>q and len(visited) < 20\<close>\<close>
  "crawl_continues s = (cs_q s \<noteq> [] \<and> fcard (cs_visited s) < 20)"

definition crawl_rel :: "lib \<Rightarrow> 'w net \<Rightarrow> ((crawl_state \<times> 'w) \<times> (crawl_state \<times> 'w)) set" where
  \<comment> \<open>the passes of the loop: the state after a pass, paired with the state before it\<close>
  "crawl_rel L N = {((s', w'), (s, w)). crawl_continues s \<and> crawl_step L N s w = (Inr s', w')}"

text \<open>
  A pass that returns either adds one URL to \<open>visited\<close> or leaves \<open>visited\<close> as it
  is and shortens the queue; the loop is defined by recursion on that order.
\<close>

lemma crawl_step_decreases:
  assumes "crawl_continues s" and "crawl_step L N s w = (Inr s', w')"
  shows "fcard (cs_visited s') = Suc (fcard (cs_visited s))
         \<or> (cs_visited s' = cs_visited s \<and> length (cs_q s') < length (cs_q s))"
proof -
  obtain u depth rest where q: "cs_q s = (u, depth) # rest"
    using assms(1) by (cases "cs_q s") (auto simp: crawl_continues_def)
  show ?thesis
  proof (cases "u |\<in>| cs_visited s")
    case True
    with q assms(2) show ?thesis by (auto simp: crawl_step_def)
  next
    case False
    with q assms(2) have "cs_visited s' = finsert u (cs_visited s)"
      by (auto simp: crawl_step_def split: prod.splits sum.splits)
    with False show ?thesis by (simp add: fcard_finsert_disjoint)
  qed
qed

function crawl_loop :: "lib \<Rightarrow> 'w net \<Rightarrow> crawl_state \<Rightarrow> 'w \<Rightarrow> (exn + crawl_state) \<times> 'w" where
  "crawl_loop L N s w =
     (if crawl_continues s
      then (case crawl_step L N s w of
              (Inl e, w') \<Rightarrow> (Inl e, w')
            | (Inr s', w') \<Rightarrow> crawl_loop L N s' w')
      else (Inr s, w))"
  by pat_completeness auto
termination
proof (relation "(\<lambda>(L, N, s, w). 20 - fcard (cs_visited s))
                   <*mlex*> measure (\<lambda>(L, N, s, w). length (cs_q s))")
  show "wf ((\<lambda>(L, N, s, w). 20 - fcard (cs_visited s))
                   <*mlex*> measure (\<lambda>(L :: lib, N :: 'w net, s, w :: 'w). length (cs_q s)))"
    by (simp add: wf_mlex)
next
  fix L :: lib and N :: "'w net" and s w x s' w'
  assume c: "crawl_continues s" and x: "(x, w') = crawl_step L N s w" and i: "x = Inr s'"
  then have st: "crawl_step L N s w = (Inr s', w')" by simp
  from c have lt: "fcard (cs_visited s) < 20" by (simp add: crawl_continues_def)
  from crawl_step_decreases[OF c st] lt
  show "((L, N, s', w'), L, N, s, w) \<in> (\<lambda>(L, N, s, w). 20 - fcard (cs_visited s))
                   <*mlex*> measure (\<lambda>(L, N, s, w). length (cs_q s))"
    by (auto simp: mlex_prod_def)
qed

declare crawl_loop.simps [simp del]


definition parse_universal :: "lib \<Rightarrow> 'w net \<Rightarrow> string \<Rightarrow> 'w \<Rightarrow> (exn + Deposit list) \<times> 'w" where
  "parse_universal L N url w =
     (case crawl_loop L N \<lparr>cs_visited = {||}, cs_q = [(url, 0)], cs_all_deps = [],
                            cs_pages = []\<rparr> w of
        (Inl e, w') \<Rightarrow> (Inl e, w')
      | (Inr s, w') \<Rightarrow> (Inr (dedup (cs_all_deps s)), w'))"

section \<open>Structured-data strategy and dispatch\<close>

definition XB_API_URL :: string where
  "XB_API_URL = ''https://data.egov.uz/apiData/MainData/GetByFile''
     @ ''?fileType=1&id=61121d80db32b99538e0833c&lang=1&tableType=2''"

fun type_name :: "json \<Rightarrow> string" where
  "type_name JNull = ''NoneType''"
| "type_name (JBool b) = ''bool''"
| "type_name (JInt i) = ''int''"
| "type_name (JFloat f) = ''float''"
| "type_name (JStr s) = ''str''"
| "type_name (JArr xs) = ''list''"
| "type_name (JObj obj) = ''dict''"

definition quoted :: "string \<Rightarrow> string" where
  "quoted s = [CHR 0x27] @ s @ [CHR 0x27]"

definition json_iter :: "json \<Rightarrow> exn + json list" where
  \<comment> \<open>\<open>for item in data\<close>: the items of a list, the keys of a dictionary, the characters
      of a string; nothing else is iterable\<close>
  "json_iter data = (case data of
       JArr xs \<Rightarrow> Inr xs
     | JObj obj \<Rightarrow> Inr (map (\<lambda>(k, v). JStr k) obj)
     | JStr s \<Rightarrow> Inr (map (\<lambda>c. JStr [c]) s)
     | _ \<Rightarrow> Inl (Exn ''TypeError'' (quoted (type_name data) @ '' object is not iterable'')))"

definition xb_field :: "lib \<Rightarrow> (string \<times> json) list \<Rightarrow> string \<Rightarrow> string" where
  \<comment> \<open>\<open>str(item.get(key, "")).strip()\<close>\<close>
  "xb_field L obj key = strip (str_of L (case map_of obj key of Some v \<Rightarrow> v | None \<Rightarrow> JStr []))"

definition xb_item :: "lib \<Rightarrow> string \<Rightarrow> (string \<times> Deposit) list \<Rightarrow> json
    \<Rightarrow> exn + (string \<times> Deposit) list" where
  \<comment> \<open>one pass of the loop of \<open>_parse_xb_open_data\<close> on the dictionary \<open>out\<close>\<close>
  "xb_item L source_url out item = (case item of
       JObj obj \<Rightarrow>
         (let dname = xb_field L obj ''Omonat nomi'';
              rate_raw = xb_field L obj ''Yillik foiz'';
              initial = xb_field L obj (''Boshlang'' @ [CHR 0x27] @ ''ich badal miqdori'');
              other = xb_field L obj ''Boshqa shartlar'';
              blob = join '' '' [dname, rate_raw, initial, other]
          in if dname = [] \<or> \<not> is_usd_context blob then Inr out
             else (case parse_percent rate_raw of
                     Fin r \<Rightarrow>
                       if \<not> (0 \<le> r \<and> r \<le> MAX_USD_RATE) then Inr out
                       else Inr (setdefault out (lower dname)
                              \<lparr>dep_bank = ''Xalq banki'', dep_site = ''xb.uz'',
                               dep_name = dname, dep_rate = r, dep_currency = ''USD'',
                               dep_url = source_url\<rparr>)
                   | _ \<Rightarrow> Inr out))
     | _ \<Rightarrow> Inl (Exn ''AttributeError''
                (quoted (type_name item) @ '' object has no attribute '' @ quoted ''get'')))"

fun xb_loop :: "lib \<Rightarrow> string \<Rightarrow> json list \<Rightarrow> (string \<times> Deposit) list
    \<Rightarrow> exn + (string \<times> Deposit) list" where
  "xb_loop L source_url [] out = Inr out"
| "xb_loop L source_url (item # items) out = (case xb_item L source_url out item of
       Inl e \<Rightarrow> Inl e
     | Inr out' \<Rightarrow> xb_loop L source_url items out')"

definition parse_xb_open_data :: "lib \<Rightarrow> 'w net \<Rightarrow> string \<Rightarrow> 'w \<Rightarrow> (exn + Deposit list) \<times> 'w"
  where
  "parse_xb_open_data L N source_url w = (case fetch N XB_API_URL w of
       (Inl e, w') \<Rightarrow> (Inl e, w')
     | (Inr r, w') \<Rightarrow>
         (case json_body r of
            Inl e \<Rightarrow> (Inl e, w')
          | Inr data \<Rightarrow>
              (case json_iter data of
                 Inl e \<Rightarrow> (Inl e, w')
               | Inr items \<Rightarrow>
                   (case xb_loop L source_url items [] of
                      Inl e \<Rightarrow> (Inl e, w')
                    | Inr out \<Rightarrow> (Inr (map snd out), w')))))"

definition parse_url :: "lib \<Rightarrow> 'w net \<Rightarrow> string \<Rightarrow> 'w \<Rightarrow> (exn + Deposit list) \<times> 'w" where
  "parse_url L N url w = (case domain_of L url of
       Inl e \<Rightarrow> (Inl e, w)
     | Inr d \<Rightarrow>
         if endswith d ''xb.uz'' then parse_xb_open_data L N url w
         else parse_universal L N url w)"

section \<open>The loop over the input URLs\<close>

definition USD_TOKENS :: "string list" where
  "USD_TOKENS = [''usd'', ''$'', ''dollar'', ''aqsh'']"

definition simple_has_usd :: "string \<Rightarrow> bool" where
  "simple_has_usd html = any_in USD_TOKENS (lower html)"

definition simple_has_percent :: "string \<Rightarrow> bool" where
  "simple_has_percent html = contains html ''%''"

definition error_note :: "exn \<Rightarrow> string" where
  \<comment> \<open>the note of the two \<open>except\<close> clauses: of the exception of the last attempt for a
      \<open>RetryError\<close>, of the exception itself otherwise\<close>
  "error_note e = (case e of
       RetryError c m \<Rightarrow> c @ '': '' @ take 180 m
     | Exn c m \<Rightarrow> c @ '': '' @ take 180 m)"

definition error_status :: "string \<Rightarrow> string \<Rightarrow> int option \<Rightarrow> string \<Rightarrow> exn \<Rightarrow> SiteStatus" where
  "error_status url site_dom http_status signals e =
     \<lparr>st_input_url = url, st_domain = site_dom, st_http_status = http_status,
      st_signals = signals, st_result = ''ERROR'', st_note = error_note e, st_rows_found = 0\<rparr>"

definition zero_rows_result :: "string \<Rightarrow> string \<times> string" where
  \<comment> \<open>result and note of a site without rows\<close>
  "zero_rows_result html_probe =
     (if looks_js_empty html_probe
      then (''JS_RENDER_REQUIRED'', ''HTML looks like a JS shell or too thin'')
      else if \<not> simple_has_usd html_probe then (''NO_USD_MATCH'', ''No USD markers found'')
      else if \<not> simple_has_percent html_probe
      then (''NO_RATES_FOUND'', ''No percent values found'')
      else (''NO_MATCHING_DEPOSITS'',
            ''USD markers exist but no valid deposit/rate pairs detected''))"

definition process_site :: "lib \<Rightarrow> 'w net \<Rightarrow> string \<Rightarrow> string \<Rightarrow> 'w
    \<Rightarrow> (SiteStatus \<times> Deposit list) \<times> 'w" where
  \<comment> \<open>the \<open>try\<close> statement of the loop body: the status appended to \<open>sites\<close> and the rows
      added to \<open>deposits_all\<close>\<close>
  "process_site L N url site_dom w = (case http_get N url w of
       (Inl e, w1) \<Rightarrow> ((error_status url site_dom None [] e, []), w1)
     | (Inr r, w1) \<Rightarrow>
         (let http_status = Some (status_code r); html_probe = body_text r;
              signals = snd (diagnose_response url r)
          in if is_hard_block http_status signals
             then ((\<lparr>st_input_url = url, st_domain = site_dom, st_http_status = http_status,
                      st_signals = signals, st_result = ''BLOCKED'',
                      st_note = (if signals \<noteq> [] then signals
                                 else ''status='' @ str_int (status_code r)),
                      st_rows_found = 0\<rparr>, []), w1)
             else (case parse_url L N url w1 of
                     (Inl e, w2) \<Rightarrow> ((error_status url site_dom http_status signals e, []), w2)
                   | (Inr deps, w2) \<Rightarrow>
                       (let (res, nt) = (if 0 < length deps then (''OK'', [])
                                         else zero_rows_result html_probe)
                        in ((\<lparr>st_input_url = url, st_domain = site_dom,
                                st_http_status = http_status, st_signals = signals,
                                st_result = res, st_note = nt,
                                st_rows_found = length deps\<rparr>, deps), w2)))))"

fun main_loop :: "lib \<Rightarrow> 'w net \<Rightarrow> string list \<Rightarrow> 'w
    \<Rightarrow> (exn + SiteStatus list \<times> Deposit list) \<times> 'w" where
  \<comment> \<open>the loop \<open>for url in urls\<close> of \<open>main\<close>: the lists \<open>sites\<close> and \<open>deposits_all\<close>, or the
      exception that leaves the loop. \<open>dom = domain_of(url)\<close> stands before the \<open>try\<close>\<close>
  "main_loop L N [] w = (Inr ([], []), w)"
| "main_loop L N (url # urls) w = (case domain_of L url of
       Inl e \<Rightarrow> (Inl e, w)
     | Inr site_dom \<Rightarrow>
         (case process_site L N url site_dom w of
            ((st, deps), w1) \<Rightarrow>
              (case main_loop L N urls w1 of
                 (Inl e, w2) \<Rightarrow> (Inl e, w2)
               | (Inr (sites, deposits_all), w2) \<Rightarrow>
                   (Inr (st # sites, deps @ deposits_all), w2))))"

definition record_ok :: "Deposit \<Rightarrow> bool" where
  \<comment> \<open>the invariant of a deposit record: a rate in (0, 0.35] and the currency USD\<close>
  "record_ok d = (0 < dep_rate d \<and> dep_rate d \<le> 35 / 100 \<and> dep_currency d = ''USD'')"

text \<open>
  Networks for evaluations. Every request adds one to the state. The open-data endpoint
  answers with one USD deposit, any other URL with an empty page.
\<close>

definition page_empty :: Response where
  "page_empty = \<lparr>status_code = 200, headers = [], body_text = ''<html></html>'',
     json_body = Inl (Exn ''JSONDecodeError'' ''Expecting value'')\<rparr>"

definition open_data :: "string \<Rightarrow> Response" where
  \<comment> \<open>the answer of the open-data endpoint: one deposit named \<open>USD omonat\<close> with the
      given text of its annual rate\<close>
  "open_data rate_raw = \<lparr>status_code = 200, headers = [(''Content-Type'', ''application/json'')],
     body_text = ''[...]'',
     json_body = Inr (JArr [JObj [(''Omonat nomi'', JStr ''USD omonat''),
                                 (''Yillik foiz'', JStr rate_raw)]])\<rparr>"

definition net_open_data :: "string \<Rightarrow> nat net" where
  "net_open_data rate_raw =
     \<lparr>http_get = (\<lambda>url w. (Inr (if url = XB_API_URL then open_data rate_raw else page_empty),
                              Suc w)),
      http_error_msg = (\<lambda>r. ''error'')\<rparr>"

definition net_status :: "int \<Rightarrow> nat net" where
  \<comment> \<open>every URL answers with the given status and an empty page\<close>
  "net_status code =
     \<lparr>http_get = (\<lambda>url w. (Inr (page_empty\<lparr>status_code := code\<rparr>), Suc w)),
      http_error_msg = (\<lambda>r. ''error'')\<rparr>"

section \<open>The states that a crawl reaches\<close>

definition crawl_init :: "string \<Rightarrow> crawl_state" where
  \<comment> \<open>the state before the loop of \<open>_parse_universal\<close>\<close>
  "crawl_init url = \<lparr>cs_visited = {||}, cs_q = [(url, 0)], cs_all_deps = [], cs_pages = []\<rparr>"

inductive crawl_reach :: "lib \<Rightarrow> 'w net \<Rightarrow> string \<Rightarrow> 'w \<Rightarrow> crawl_state \<Rightarrow> 'w \<Rightarrow> bool"
  for L :: lib and N :: "'w net" and url :: string and w0 :: 'w where
  reach_init: "crawl_reach L N url w0 (crawl_init url) w0"
| reach_step: "crawl_reach L N url w0 s w \<Longrightarrow> crawl_continues s \<Longrightarrow>
     crawl_step L N s w = (Inr s', w') \<Longrightarrow> crawl_reach L N url w0 s' w'"

definition crawl_inv :: "string \<Rightarrow> crawl_state \<Rightarrow> bool" where
  \<comment> \<open>the pages processed are the visited set, each once and at most 20; the queue holds
      the root at depth 0 before the first pass and entries of depth 1 afterwards\<close>
  "crawl_inv url s =
     (cs_visited s = fset_of_list (cs_pages s) \<and> distinct (cs_pages s)
      \<and> length (cs_pages s) = fcard (cs_visited s) \<and> length (cs_pages s) \<le> 20
      \<and> (s = crawl_init url \<or> list_all (\<lambda>e. snd e = 1) (cs_q s)))"

text \<open>A page with two links, for evaluations.\<close>

definition page_two_links :: node where
  "page_two_links = Elem ''[document]'' [] [Elem ''html'' [] [Elem ''body'' []
     [Elem ''a'' [(''href'', ''https://bank.example/deposits/usd'')] [Text ''USD deposits''],
      Elem ''a'' [(''href'', ''https://bank.example/about'')] [Text ''About'']]]]"

section \<open>Verified properties\<close>

subsection \<open>Domain normalisation\<close>

lemma startswith_single: "startswith d [c] = (d \<noteq> [] \<and> hd d = c)"
  by (cases d) auto

lemma domain_of_netloc:
  "urlsplit L url = Inr (netloc, query) \<Longrightarrow>
   domain_of L url = Inr (dropWhile (\<lambda>c. c = CHR ''w'' \<or> c = CHR ''.'') (lower netloc))"
  by (simp add: domain_of_def)

lemma domain_of_head:
  assumes "domain_of L url = Inr d"
  shows "\<not> startswith d ''w'' \<and> \<not> startswith d ''.''"
proof -
  obtain netloc query where u: "urlsplit L url = Inr (netloc, query)"
    using assms by (auto simp: domain_of_def split: sum.splits)
  let ?P = "\<lambda>c. c = CHR ''w'' \<or> c = CHR ''.''"
  have d: "d = dropWhile ?P (lower netloc)"
    using assms domain_of_netloc[OF u] by simp
  have "d \<noteq> [] \<Longrightarrow> \<not> ?P (hd d)"
    unfolding d by (rule hd_dropWhile)
  then show ?thesis
    by (auto simp: startswith_single)
qed

lemma example_urlsplit:
  "urlsplit L ''https://web.bank.example/deposits'' = Inr (''web.bank.example'', [])"
  by (simp add: urlsplit_def url_clean_def strip_scheme_def is_ascii_alpha_def
      scheme_char_def netloc_end_def isdecimal_def)

lemma example_domain:
  "domain_of L ''https://web.bank.example/deposits'' = Inr ''eb.bank.example''"
  by (simp add: domain_of_def example_urlsplit lower_def lower_char_def isupper_def)

lemma same_domain_eq:
  "same_domain L a b = Inr True \<Longrightarrow> domain_of L a = domain_of L b"
  by (auto simp: same_domain_def split: sum.splits)

text \<open>
  C10. The domain of a URL is its lower-cased network location without its leading
  characters \<open>w\<close> and \<open>.\<close> (the characters of the argument of \<open>lstrip\<close>), not
  without the prefix \<open>www.\<close>: a computed domain never starts with \<open>w\<close> or with a dot,
  two URLs are of the same domain when their computed domains are equal, and the host
  \<open>web.bank.example\<close>, which does not start with \<open>www.\<close>, has the domain
  \<open>eb.bank.example\<close>.
\<close>

theorem domain_of_strips_leading_w_and_dot:
  "(urlsplit L url = Inr (netloc, query) \<longrightarrow>
      domain_of L url = Inr (dropWhile (\<lambda>c. c = CHR ''w'' \<or> c = CHR ''.'') (lower netloc)))
   \<and> (domain_of L url = Inr d \<longrightarrow> \<not> startswith d ''w'' \<and> \<not> startswith d ''.'')
   \<and> (same_domain L a b = Inr True \<longrightarrow> domain_of L a = domain_of L b)
   \<and> urlsplit L ''https://web.bank.example/deposits'' = Inr (''web.bank.example'', [])
   \<and> domain_of L ''https://web.bank.example/deposits'' = Inr ''eb.bank.example''
   \<and> \<not> startswith ''web.bank.example'' ''www.''"
proof (intro conjI impI)
  show "\<not> startswith ''web.bank.example'' ''www.''" by simp
qed (simp_all add: domain_of_netloc domain_of_head example_urlsplit example_domain same_domain_eq)

text \<open>The theorem at a host with the prefix \<open>www.\<close> followed by \<open>w.\<close>.\<close>

theorem domain_of_strips_leading_w_and_dot_witness:
  "urlsplit lib_plain ''https://www.w.bank.example/'' = Inr (''www.w.bank.example'', [])
   \<and> domain_of lib_plain ''https://www.w.bank.example/'' = Inr ''bank.example''
   \<and> same_domain lib_plain ''https://www.w.bank.example/'' ''https://bank.example/x'' = Inr True
   \<and> domain_of lib_plain ''https://bank.example/x'' = Inr ''bank.example''
   \<and> \<not> startswith ''bank.example'' ''w''"
proof -
  have u: "urlsplit lib_plain ''https://www.w.bank.example/'' = Inr (''www.w.bank.example'', [])"
    by (simp add: urlsplit_def url_clean_def strip_scheme_def is_ascii_alpha_def
        scheme_char_def netloc_end_def isdecimal_def)
  have u2: "urlsplit lib_plain ''https://bank.example/x'' = Inr (''bank.example'', [])"
    by (simp add: urlsplit_def url_clean_def strip_scheme_def is_ascii_alpha_def
        scheme_char_def netloc_end_def isdecimal_def)
  have d2: "domain_of lib_plain ''https://bank.example/x'' = Inr ''bank.example''"
    by (simp add: domain_of_def u2 lower_def lower_char_def isupper_def)
  note t = domain_of_strips_leading_w_and_dot[of lib_plain "''https://www.w.bank.example/''"
      "''www.w.bank.example''" "[]" "''bank.example''" "''https://www.w.bank.example/''"
      "''https://bank.example/x''"]
  have d1: "domain_of lib_plain ''https://www.w.bank.example/'' = Inr ''bank.example''"
    using t u by (simp add: lower_def lower_char_def isupper_def)
  have s: "same_domain lib_plain ''https://www.w.bank.example/'' ''https://bank.example/x'' = Inr True"
    by (simp add: same_domain_def d1 d2)
  show ?thesis using t u d1 d2 s by simp
qed

subsection \<open>Rate normalizer\<close>

lemmas rate_eval_defs =
  extract_rate_from_text_def norm_py_def split_def isspace_def match_pct_def match_num_def
  isdecimal_def rate_accepted_def parse_percent_def strip_def py_float_def split_sign_def
  parse_decimal_def parse_exponent_def scale10_def digits_val_def replace_comma_def
  fdiv100_def fgt1_def MAX_USD_RATE_def lower_def lower_char_def isupper_def num_findall_def


lemma extract_rate_candidates:
  "extract_rate_from_text text = first_accepted (rate_candidates (norm_py text))"
proof (cases "norm_py text = []")
  case True
  then show ?thesis
    by (simp add: extract_rate_from_text_def rate_candidates_def num_findall_def)
next
  case False
  then show ?thesis
    by (auto simp: extract_rate_from_text_def rate_candidates_def Let_def
        split: option.splits)
qed

lemma rate_accepted_range:
  "rate_accepted v = Some r \<Longrightarrow> 0 < r \<and> r \<le> 35 / 100"
  by (auto simp: rate_accepted_def MAX_USD_RATE_def split: pyfloat.splits if_splits)

lemma first_accepted_range:
  "first_accepted raws = Some r \<Longrightarrow> 0 < r \<and> r \<le> 35 / 100"
  by (induction raws) (auto split: option.splits dest: rate_accepted_range)

lemma extract_rate_range:
  "extract_rate_from_text text = Some r \<Longrightarrow> 0 < r \<and> r \<le> 35 / 100"
  unfolding extract_rate_candidates by (rule first_accepted_range)

lemma extract_rate_percent_rejected: "extract_rate_from_text ''50%'' = None" by (simp add: rate_eval_defs)
lemma extract_rate_fallback_after_percent: "extract_rate_from_text ''50% 7'' = Some (7 / 100)" by (simp add: rate_eval_defs)
lemma extract_rate_fifth_number_ignored: "extract_rate_from_text ''50 60 70 80 5'' = None" by (simp add: rate_eval_defs)
lemma extract_rate_fourth_number: "extract_rate_from_text ''50 60 70 5'' = Some (5 / 100)" by (simp add: rate_eval_defs)
lemma parse_percent_point: "parse_percent ''7.5%'' = Fin (75 / 1000)" by (simp add: rate_eval_defs)
lemma parse_percent_comma: "parse_percent ''7,5%'' = Fin (75 / 1000)" by (simp add: rate_eval_defs)
lemma parse_percent_unparsable: "parse_percent ''abc'' = Fin 0" by (simp add: rate_eval_defs)
lemma rate_candidates_example: "rate_candidates ''50% 7 8 9 10 11'' = [''50%'', ''50'', ''7'', ''8'', ''9'']" by (simp add: rate_candidates_def rate_eval_defs)



subsection \<open>Substrings\<close>

lemma startswith_prefix: "startswith s p = prefix p s"
  by (induction s p rule: startswith.induct) auto

lemma contains_sublist: "contains s x = sublist x s"
  by (induction s) (auto simp: startswith_prefix sublist_Cons_right)

lemma contains_append: "contains (a @ x @ b) x"
  by (simp add: contains_sublist)

lemma contains_trans: "contains s y \<Longrightarrow> contains y x \<Longrightarrow> contains s x"
  unfolding contains_sublist by (rule sublist_order.order_trans[rotated])

subsection \<open>Forced USD\<close>

lemma currency_usd_has_usd: "contains u ''currency=usd'' \<Longrightarrow> contains u ''usd''"
  by (erule contains_trans) simp

lemma valyuta_usd_has_usd: "contains u ''valyuta=usd'' \<Longrightarrow> contains u ''usd''"
  by (erule contains_trans) simp

text \<open>
  C8, as amended. The flag \<open>forced_usd\<close> is true exactly when the lower-cased URL
  contains \<open>usd\<close> anywhere (in the host, the path or the query: \<open>currency=usd\<close> and
  \<open>valyuta=usd\<close> are cases of it), or the URL parses and either pins the page to USD by
  a \<open>currency\<close> or \<open>valyuta\<close> query parameter of value \<open>usd\<close>, or the page text has
  \<open>usd\<close> as a token between spaces and no non-USD marker.
\<close>

theorem forced_usd_any_usd_in_url:
  "(page_forced_usd L url soup_text = Inr True) =
     (contains (lower url) ''usd''
      \<or> (\<exists>nq. urlsplit L url = Inr nq)
        \<and> (url_pins_usd L url \<or> text_mentions_usd soup_text))"
proof (cases "contains (lower url) ''usd''")
  case True
  then show ?thesis by (simp add: page_forced_usd_def)
next
  case False
  then have no: "\<not> contains (lower url) ''currency=usd''" "\<not> contains (lower url) ''valyuta=usd''"
    using currency_usd_has_usd valyuta_usd_has_usd by blast+
  show ?thesis
    using False no
    by (auto simp: page_forced_usd_def url_pins_usd_def text_mentions_usd_def Let_def
        split: sum.splits prod.splits)
qed

lemmas url_eval_defs =
  urlsplit_def url_clean_def strip_scheme_def is_ascii_alpha_def scheme_char_def
  netloc_end_def isdecimal_def lower_def lower_char_def isupper_def

text \<open>The theorem at a page pinned by its text alone.\<close>

theorem forced_usd_any_usd_in_url_witness:
  "page_forced_usd lib_plain ''https://bank.example/deposits'' ''Deposits in USD'' = Inr True
   \<and> \<not> contains (lower ''https://bank.example/deposits'') ''usd''
   \<and> text_mentions_usd ''Deposits in USD''"
proof -
  have u: "urlsplit lib_plain ''https://bank.example/deposits'' = Inr (''bank.example'', [])"
    by (simp add: url_eval_defs)
  have c: "\<not> contains (lower ''https://bank.example/deposits'') ''usd''"
    by (simp add: lower_def lower_char_def isupper_def)
  have m: "text_mentions_usd ''Deposits in USD''"
    by (simp add: text_mentions_usd_def any_in_def USD_NEG_def lower_def lower_char_def
        isupper_def)
  show ?thesis
    using forced_usd_any_usd_in_url[of lib_plain "''https://bank.example/deposits''"
        "''Deposits in USD''"] u c m
    by simp
qed

text \<open>
  C8 as stated fails: a URL without any query parameter whose path holds \<open>usd\<close>, on a
  page whose text names UZS only, is forced to USD.
\<close>

theorem forced_usd_path_counterexample:
  "\<forall>L. page_forced_usd L ''https://bank.example/deposits/usd-and-uzs'' ''Deposits in UZS'' = Inr True
     \<and> urlsplit L ''https://bank.example/deposits/usd-and-uzs'' = Inr (''bank.example'', [])
     \<and> \<not> url_pins_usd L ''https://bank.example/deposits/usd-and-uzs''
     \<and> \<not> text_mentions_usd ''Deposits in UZS''"
proof
  fix L
  have u: "urlsplit L ''https://bank.example/deposits/usd-and-uzs'' = Inr (''bank.example'', [])"
    by (simp add: url_eval_defs)
  have p: "page_forced_usd L ''https://bank.example/deposits/usd-and-uzs'' ''Deposits in UZS'' = Inr True"
    by (simp add: page_forced_usd_def lower_def lower_char_def isupper_def)
  have q: "\<not> url_pins_usd L ''https://bank.example/deposits/usd-and-uzs''"
    by (simp add: url_pins_usd_def u parse_qs_def parse_qsl_def lower_def lower_char_def isupper_def)
  have m: "\<not> text_mentions_usd ''Deposits in UZS''"
    by (simp add: text_mentions_usd_def any_in_def USD_NEG_def lower_def lower_char_def
        isupper_def)
  show "page_forced_usd L ''https://bank.example/deposits/usd-and-uzs'' ''Deposits in UZS'' = Inr True
     \<and> urlsplit L ''https://bank.example/deposits/usd-and-uzs'' = Inr (''bank.example'', [])
     \<and> \<not> url_pins_usd L ''https://bank.example/deposits/usd-and-uzs''
     \<and> \<not> text_mentions_usd ''Deposits in UZS''"
    using u p q m by simp
qed

subsection \<open>Deduplication\<close>

definition dedup_step :: "((string \<times> string \<times> rat) \<times> Deposit) list \<Rightarrow> Deposit
    \<Rightarrow> ((string \<times> string \<times> rat) \<times> Deposit) list" where
  "dedup_step uniq d = setdefault uniq (dedup_key d) d"

lemma dedup_fold: "dedup items = map snd (foldl dedup_step [] items)"
  by (simp add: dedup_def dedup_step_def[abs_def])

lemma dedup_step_keys: "fst ` set (dedup_step m d) = insert (dedup_key d) (fst ` set m)"
  by (force simp: dedup_step_def setdefault_def)

lemma foldl_keys: "fst ` set (foldl dedup_step m xs) = fst ` set m \<union> dedup_key ` set xs"
  by (induction xs arbitrary: m) (auto simp: dedup_step_keys)

definition keyed :: "((string \<times> string \<times> rat) \<times> Deposit) list \<Rightarrow> bool" where
  "keyed m = (distinct (map fst m) \<and> list_all (\<lambda>(k, d). dedup_key d = k) m)"

lemma keyed_step: "keyed m \<Longrightarrow> keyed (dedup_step m d)"
  by (auto simp: keyed_def dedup_step_def setdefault_def)

lemma keyed_foldl: "keyed m \<Longrightarrow> keyed (foldl dedup_step m xs)"
  by (induction xs arbitrary: m) (auto simp: keyed_step)

lemma keyed_map_key: "keyed m \<Longrightarrow> map dedup_key (map snd m) = map fst m"
  by (induction m) (auto simp: keyed_def)

lemma dedup_keys_distinct: "distinct (map dedup_key (dedup xs))"
proof -
  have k: "keyed (foldl dedup_step [] xs)"
    by (rule keyed_foldl) (simp add: keyed_def)
  then show ?thesis
    unfolding dedup_fold keyed_map_key[OF k] by (simp add: keyed_def)
qed

lemma dedup_key_set: "dedup_key ` set (dedup xs) = dedup_key ` set xs"
proof -
  have k: "keyed (foldl dedup_step [] xs)"
    by (rule keyed_foldl) (simp add: keyed_def)
  have "dedup_key ` set (dedup xs) = set (map dedup_key (dedup xs))" by simp
  also have "\<dots> = set (map fst (foldl dedup_step [] xs))"
    unfolding dedup_fold keyed_map_key[OF k] ..
  also have "\<dots> = dedup_key ` set xs"
    using foldl_keys[of "[]" xs] by simp
  finally show ?thesis .
qed

lemma foldl_fresh:
  "distinct (map dedup_key ys) \<Longrightarrow> dedup_key ` set ys \<inter> fst ` set m = {} \<Longrightarrow>
   foldl dedup_step m ys = m @ map (\<lambda>d. (dedup_key d, d)) ys"
proof (induction ys arbitrary: m)
  case Nil
  then show ?case by simp
next
  case (Cons y ys)
  have s: "dedup_step m y = m @ [(dedup_key y, y)]"
    using Cons.prems(2) by (auto simp: dedup_step_def setdefault_def)
  have "foldl dedup_step (m @ [(dedup_key y, y)]) ys
      = (m @ [(dedup_key y, y)]) @ map (\<lambda>d. (dedup_key d, d)) ys"
    using Cons.prems by (intro Cons.IH) auto
  then show ?case by (simp add: s)
qed

lemma dedup_of_distinct: "distinct (map dedup_key ys) \<Longrightarrow> dedup ys = ys"
  using foldl_fresh[of ys "[]"] by (simp add: dedup_fold comp_def)

lemma dedup_idem: "dedup (dedup xs) = dedup xs"
  by (rule dedup_of_distinct) (rule dedup_keys_distinct)

lemma dedup_step_values: "snd ` set (dedup_step m d) \<subseteq> insert d (snd ` set m)"
  by (auto simp: dedup_step_def setdefault_def)

lemma foldl_subset: "snd ` set (foldl dedup_step m xs) \<subseteq> snd ` set m \<union> set xs"
proof (induction xs arbitrary: m)
  case Nil
  then show ?case by simp
next
  case (Cons x xs)
  have "snd ` set (foldl dedup_step (dedup_step m x) xs)
      \<subseteq> snd ` set (dedup_step m x) \<union> set xs"
    by (rule Cons.IH)
  also have "\<dots> \<subseteq> insert x (snd ` set m) \<union> set xs"
    using dedup_step_values[of m x] by blast
  finally show ?case by auto
qed

lemma dedup_subset: "set (dedup xs) \<subseteq> set xs"
  using foldl_subset[of "[]" xs] by (simp add: dedup_fold)

lemma foldl_first_seen:
  "keyed m \<Longrightarrow> (k, d) \<in> set (foldl dedup_step m xs) \<Longrightarrow>
   (k, d) \<in> set m \<or> (k \<notin> fst ` set m \<and> find (\<lambda>e. dedup_key e = k) xs = Some d)"
proof (induction xs arbitrary: m)
  case Nil
  then show ?case by simp
next
  case (Cons x xs)
  from Cons.IH[OF keyed_step[OF Cons.prems(1)], of x] Cons.prems(2)
  have "(k, d) \<in> set (dedup_step m x)
      \<or> (k \<notin> fst ` set (dedup_step m x) \<and> find (\<lambda>e. dedup_key e = k) xs = Some d)"
    by simp
  then show ?case
    by (auto simp: dedup_step_def setdefault_def split: if_splits)
qed

lemma dedup_first_seen:
  assumes "d \<in> set (dedup xs)"
  shows "find (\<lambda>e. dedup_key e = dedup_key d) xs = Some d"
proof -
  have k: "keyed (foldl dedup_step [] xs)"
    by (rule keyed_foldl) (simp add: keyed_def)
  from assms obtain k' where in_m: "(k', d) \<in> set (foldl dedup_step [] xs)"
    by (auto simp: dedup_fold)
  with k have "dedup_key d = k'"
    by (auto simp: keyed_def list_all_iff)
  with in_m foldl_first_seen[of "[]" k' d xs] show ?thesis
    by (simp add: keyed_def)
qed


lemma dedup_length: "length (dedup xs) = card (dedup_key ` set xs)"
proof -
  have "length (dedup xs) = length (map dedup_key (dedup xs))" by simp
  also have "\<dots> = card (set (map dedup_key (dedup xs)))"
    by (rule distinct_card[symmetric]) (rule dedup_keys_distinct)
  also have "\<dots> = card (dedup_key ` set xs)"
    by (simp add: dedup_key_set)
  finally show ?thesis .
qed

lemma dedup_pair_same_key:
  "dedup_key a = dedup_key b \<Longrightarrow> dedup [a, b] = [a]"
  by (simp add: dedup_def setdefault_def)

lemma dep_same_key: "dedup_key dep_first = dedup_key dep_second"
  by (simp add: dedup_key_def dep_first_def dep_second_def strip_def isspace_def lower_def
      lower_char_def isupper_def)

lemma dep_differ: "dep_first \<noteq> dep_second"
  by (simp add: dep_first_def dep_second_def)

text \<open>
  C7, as amended. Deduplication is idempotent; its result has one record per key
  (site, lower-cased trimmed name, rate), each the first record of its key in the input;
  and for two orders of one candidate multiset the results have the same keys and the
  same number of records. Which record stands for a key depends on the order.
\<close>

theorem dedup_idempotent_first_seen:
  "dedup (dedup xs) = dedup xs
   \<and> distinct (map dedup_key (dedup xs))
   \<and> set (dedup xs) \<subseteq> set xs
   \<and> (\<forall>d \<in> set (dedup xs). find (\<lambda>e. dedup_key e = dedup_key d) xs = Some d)
   \<and> (mset xs = mset ys \<longrightarrow>
        dedup_key ` set (dedup xs) = dedup_key ` set (dedup ys)
        \<and> length (dedup xs) = length (dedup ys))"
proof (intro conjI impI ballI)
  assume m: "mset xs = mset ys"
  then have s: "set xs = set ys" by (rule mset_eq_setD)
  show "dedup_key ` set (dedup xs) = dedup_key ` set (dedup ys)"
    by (simp add: dedup_key_set s)
  show "length (dedup xs) = length (dedup ys)"
    by (simp add: dedup_length s)
qed (simp_all add: dedup_idem dedup_keys_distinct dedup_subset dedup_first_seen)

text \<open>The theorem at two candidates of one key, in both orders.\<close>

theorem dedup_idempotent_first_seen_witness:
  "mset [dep_first, dep_second] = mset [dep_second, dep_first]
   \<and> dedup [dep_first, dep_second] = [dep_first]
   \<and> dedup (dedup [dep_first, dep_second]) = [dep_first]
   \<and> find (\<lambda>e. dedup_key e = dedup_key dep_first) [dep_first, dep_second] = Some dep_first
   \<and> dedup_key ` set (dedup [dep_first, dep_second])
       = dedup_key ` set (dedup [dep_second, dep_first])
   \<and> length (dedup [dep_first, dep_second]) = length (dedup [dep_second, dep_first])"
proof -
  note t = dedup_idempotent_first_seen[of "[dep_first, dep_second]" "[dep_second, dep_first]"]
  have m: "mset [dep_first, dep_second] = mset [dep_second, dep_first]"
    by (simp add: add.commute)
  have d: "dedup [dep_first, dep_second] = [dep_first]"
    by (rule dedup_pair_same_key) (rule dep_same_key)
  have f: "find (\<lambda>e. dedup_key e = dedup_key dep_first) [dep_first, dep_second] = Some dep_first"
    using t d by simp
  have i: "dedup (dedup [dep_first, dep_second]) = [dep_first]"
    using t d by simp
  show ?thesis
    using t m d f i by blast
qed

text \<open>
  C7 as stated fails: two candidates of one key that differ in their source URL give a
  different record set in each order.
\<close>

theorem dedup_order_counterexample:
  "mset [dep_first, dep_second] = mset [dep_second, dep_first]
   \<and> set (dedup [dep_first, dep_second]) = {dep_first}
   \<and> set (dedup [dep_second, dep_first]) = {dep_second}
   \<and> set (dedup [dep_first, dep_second]) \<noteq> set (dedup [dep_second, dep_first])"
proof -
  have m: "mset [dep_first, dep_second] = mset [dep_second, dep_first]"
    by (simp add: add.commute)
  have d1: "dedup [dep_first, dep_second] = [dep_first]"
    by (rule dedup_pair_same_key) (rule dep_same_key)
  have d2: "dedup [dep_second, dep_first] = [dep_second]"
    by (rule dedup_pair_same_key) (rule dep_same_key[symmetric])
  show ?thesis
    using m dep_differ by (simp add: d1 d2)
qed

subsection \<open>Hard-block decision\<close>

lemma lower_append: "lower (a @ b) = lower a @ lower b"
  by (simp add: lower_def)

lemma lower_join: "lower (join sep xs) = join (lower sep) (map lower xs)"
  by (induction sep xs rule: join.induct) (simp_all add: lower_append, simp add: lower_def)

lemma sublist_comma_join:
  assumes "CHR '','' \<notin> set x" and "x \<noteq> []"
  shows "sublist x (s @ '','' @ t) = (sublist x s \<or> sublist x t)"
proof -
  have no_prefix: "\<not> prefix x2 ('','' @ t)" if "x2 \<noteq> []" "set x2 \<subseteq> set x" for x2
  proof
    assume "prefix x2 ('','' @ t)"
    with that(1) have "hd x2 = CHR '',''"
      by (cases x2) auto
    with that have "CHR '','' \<in> set x"
      by (cases x2) auto
    with assms(1) show False by simp
  qed
  have comma: "sublist x ('','' @ t) = sublist x t"
    using no_prefix[of x] assms(2) by (simp add: sublist_Cons_right)
  have split: "sublist x s" if "x = x1 @ x2" "suffix x1 s" "prefix x2 ('','' @ t)" for x1 x2
  proof -
    have "x2 = []"
      using no_prefix[of x2] that(1,3) by auto
    with that(1,2) show ?thesis
      by (auto simp: suffix_def)
  qed
  show ?thesis
    unfolding sublist_append[of x s] comma using split by blast
qed

lemma contains_join:
  assumes "CHR '','' \<notin> set x" and "x \<noteq> []"
  shows "contains (join '','' xs) x = (\<exists>s \<in> set xs. contains s x)"
proof (induction "'',''" xs rule: join.induct)
  case 1
  then show ?case using assms(2) by simp
next
  case (2 s)
  then show ?case by simp
next
  case (3 s y ys)
  have "contains (join '','' (s # y # ys)) x
      = (contains s x \<or> contains (join '','' (y # ys)) x)"
    using sublist_comma_join[OF assms, of s "join '','' (y # ys)"]
    by (simp add: contains_sublist)
  then show ?case using 3 by auto
qed

lemma str_int_status:
  "str_int 401 = ''401''" "str_int 403 = ''403''" "str_int 429 = ''429''"
  "str_int 503 = ''503''"
  by (simp_all add: str_int_def str_nat.simps)

lemma status_tag:
  "c = 401 \<or> c = 403 \<or> c = 429 \<or> c = 503 \<Longrightarrow> ''status='' @ str_int c \<in> set SIGNAL_TAGS"
  by (auto simp: SIGNAL_TAGS_def str_int_status)

lemma optional_tag:
  "s \<in> set SIGNAL_TAGS \<Longrightarrow> set (if b then [s] else []) \<subseteq> set SIGNAL_TAGS"
  by (cases b) simp_all

lemma diagnose_signals_tags: "set (diagnose_signals r) \<subseteq> set SIGNAL_TAGS"
proof -
  have tags: "''cloudflare'' \<in> set SIGNAL_TAGS" "''sucuri'' \<in> set SIGNAL_TAGS"
    "''antibot_cookie'' \<in> set SIGNAL_TAGS" "''antibot_page'' \<in> set SIGNAL_TAGS"
    "''thin_html_or_js_shell'' \<in> set SIGNAL_TAGS"
    by (simp_all add: SIGNAL_TAGS_def)
  have st: "set (if status_code r = 401 \<or> status_code r = 403 \<or> status_code r = 429
              \<or> status_code r = 503
          then [''status='' @ str_int (status_code r)] else []) \<subseteq> set SIGNAL_TAGS"
    using status_tag[of "status_code r"] by (cases "status_code r = 401 \<or> status_code r = 403
        \<or> status_code r = 429 \<or> status_code r = 503") simp_all
  show ?thesis
    unfolding diagnose_signals_def Let_def set_append Un_subset_iff
    by (intro conjI st optional_tag tags)
qed

lemma tags_checked:
  "list_all (\<lambda>s. lower s = s
       \<and> contains s ''cloudflare'' = (s = ''cloudflare'')
       \<and> contains s ''sucuri'' = (s = ''sucuri'')
       \<and> contains s ''antibot_cookie'' = (s = ''antibot_cookie'')
       \<and> contains s ''antibot_page'' = (s = ''antibot_page'')) SIGNAL_TAGS"
  by (simp add: SIGNAL_TAGS_def lower_def lower_char_def isupper_def)

lemma tag_lower: "s \<in> set SIGNAL_TAGS \<Longrightarrow> lower s = s"
  using tags_checked by (simp add: list_all_iff)

lemma tag_contains:
  assumes "s \<in> set SIGNAL_TAGS"
  shows "contains s ''cloudflare'' = (s = ''cloudflare'')"
    and "contains s ''sucuri'' = (s = ''sucuri'')"
    and "contains s ''antibot_cookie'' = (s = ''antibot_cookie'')"
    and "contains s ''antibot_page'' = (s = ''antibot_page'')"
  using assms tags_checked by (simp_all add: list_all_iff)

lemma joined_tags_contains:
  assumes "set sigs \<subseteq> set SIGNAL_TAGS"
  shows "contains (lower (join '','' sigs)) ''cloudflare'' = (''cloudflare'' \<in> set sigs)"
    and "contains (lower (join '','' sigs)) ''sucuri'' = (''sucuri'' \<in> set sigs)"
    and "contains (lower (join '','' sigs)) ''antibot_cookie'' = (''antibot_cookie'' \<in> set sigs)"
    and "contains (lower (join '','' sigs)) ''antibot_page'' = (''antibot_page'' \<in> set sigs)"
proof -
  have m: "map lower sigs = sigs"
    using assms by (intro map_idI tag_lower) auto
  have l: "lower (join '','' sigs) = join '','' sigs"
    by (simp add: lower_join m) (simp add: lower_def lower_char_def isupper_def)
  have t: "\<And>s. s \<in> set sigs \<Longrightarrow> s \<in> set SIGNAL_TAGS"
    using assms by auto
  show "contains (lower (join '','' sigs)) ''cloudflare'' = (''cloudflare'' \<in> set sigs)"
    unfolding l using tag_contains(1)[OF t] by (subst contains_join) auto
  show "contains (lower (join '','' sigs)) ''sucuri'' = (''sucuri'' \<in> set sigs)"
    unfolding l using tag_contains(2)[OF t] by (subst contains_join) auto
  show "contains (lower (join '','' sigs)) ''antibot_cookie'' = (''antibot_cookie'' \<in> set sigs)"
    unfolding l using tag_contains(3)[OF t] by (subst contains_join) auto
  show "contains (lower (join '','' sigs)) ''antibot_page'' = (''antibot_page'' \<in> set sigs)"
    unfolding l using tag_contains(4)[OF t] by (subst contains_join) auto
qed

lemma hard_block_of_tags:
  assumes "set sigs \<subseteq> set SIGNAL_TAGS"
  shows "is_hard_block status (join '','' sigs) =
     (status = Some 401 \<or> status = Some 403 \<or> status = Some 429 \<or> status = Some 503
      \<or> (''cloudflare'' \<in> set sigs \<or> ''sucuri'' \<in> set sigs)
        \<and> (''antibot_cookie'' \<in> set sigs \<or> ''antibot_page'' \<in> set sigs))"
  by (simp add: is_hard_block_def joined_tags_contains[OF assms])


lemma diagnosed_hard_block:
  "is_hard_block (Some (status_code r)) (snd (diagnose_response url r)) =
     (status_code r \<in> {401, 403, 429, 503}
      \<or> (''cloudflare'' \<in> set (diagnose_signals r) \<or> ''sucuri'' \<in> set (diagnose_signals r))
        \<and> (''antibot_cookie'' \<in> set (diagnose_signals r)
           \<or> ''antibot_page'' \<in> set (diagnose_signals r)))"
  using hard_block_of_tags[OF diagnose_signals_tags, of "Some (status_code r)" r]
  by (simp add: diagnose_response_def)

lemma hard_block_examples:
  "is_hard_block (Some 403) [] = True"
  "is_hard_block (Some 200) ''cloudflare'' = False"
  "is_hard_block (Some 200) ''cloudflare,antibot_cookie'' = True"
  by (simp_all add: is_hard_block_def lower_def lower_char_def isupper_def)

text \<open>
  C3. On the status and the signals of a diagnosed response, the hard-block decision is
  true exactly when the status is 401, 403, 429 or 503, or the signal set holds a WAF
  signal (\<open>cloudflare\<close> or \<open>sucuri\<close>) together with an anti-bot signal
  (\<open>antibot_cookie\<close> or \<open>antibot_page\<close>); the same holds for every list of signal tags
  joined by commas. Status 403 alone is a hard block, \<open>cloudflare\<close> alone is not, and
  \<open>cloudflare\<close> with \<open>antibot_cookie\<close> is.
\<close>

theorem hard_block_decision:
  "is_hard_block (Some (status_code r)) (snd (diagnose_response url r)) =
     (status_code r \<in> {401, 403, 429, 503}
      \<or> (''cloudflare'' \<in> set (diagnose_signals r) \<or> ''sucuri'' \<in> set (diagnose_signals r))
        \<and> (''antibot_cookie'' \<in> set (diagnose_signals r)
           \<or> ''antibot_page'' \<in> set (diagnose_signals r)))
   \<and> (set sigs \<subseteq> set SIGNAL_TAGS \<longrightarrow>
        is_hard_block status (join '','' sigs) =
          (status = Some 401 \<or> status = Some 403 \<or> status = Some 429 \<or> status = Some 503
           \<or> (''cloudflare'' \<in> set sigs \<or> ''sucuri'' \<in> set sigs)
             \<and> (''antibot_cookie'' \<in> set sigs \<or> ''antibot_page'' \<in> set sigs)))
   \<and> set (diagnose_signals r) \<subseteq> set SIGNAL_TAGS
   \<and> is_hard_block (Some 403) [] = True
   \<and> is_hard_block (Some 200) ''cloudflare'' = False
   \<and> is_hard_block (Some 200) ''cloudflare,antibot_cookie'' = True"
proof (intro conjI impI)
  show "set (diagnose_signals r) \<subseteq> set SIGNAL_TAGS"
    by (rule diagnose_signals_tags)
  show "is_hard_block (Some 403) [] = True"
    "is_hard_block (Some 200) ''cloudflare'' = False"
    "is_hard_block (Some 200) ''cloudflare,antibot_cookie'' = True"
    by (rule hard_block_examples)+
qed (rule diagnosed_hard_block, erule hard_block_of_tags)

text \<open>
  The theorem at a response with status 200 behind a WAF that sets an anti-bot cookie,
  and at the signal list of a WAF header with a thin page.
\<close>

theorem hard_block_decision_witness:
  "diagnose_signals resp_waf_cookie = [''cloudflare'', ''antibot_cookie'', ''thin_html_or_js_shell'']
   \<and> set [''cloudflare'', ''antibot_cookie'', ''thin_html_or_js_shell''] \<subseteq> set SIGNAL_TAGS
   \<and> is_hard_block (Some 200) (snd (diagnose_response [] resp_waf_cookie)) = True
   \<and> is_hard_block (Some 200) (join '','' [''cloudflare'', ''thin_html_or_js_shell'']) = False"
proof -
  have s: "diagnose_signals resp_waf_cookie
      = [''cloudflare'', ''antibot_cookie'', ''thin_html_or_js_shell'']"
    by (simp add: diagnose_signals_def resp_waf_cookie_def header_get_def header_present_def
        any_in_def ANTI_COOKIES_def ANTI_BODY_def looks_js_empty_def strip_def
        Let_def isspace_def lower_def lower_char_def isupper_def)
  have c: "status_code resp_waf_cookie = 200"
    by (simp add: resp_waf_cookie_def)
  have sub: "set [''cloudflare'', ''thin_html_or_js_shell''] \<subseteq> set SIGNAL_TAGS"
    by (simp add: SIGNAL_TAGS_def)
  note t1 = hard_block_decision[of resp_waf_cookie "[]" "[''cloudflare'', ''thin_html_or_js_shell'']"
      "Some 200"]
  have a: "is_hard_block (Some 200) (snd (diagnose_response [] resp_waf_cookie)) = True"
    using t1 by (simp add: s c)
  have b: "is_hard_block (Some 200) (join '','' [''cloudflare'', ''thin_html_or_js_shell'']) = False"
    using t1 sub by simp
  have sub2: "set [''cloudflare'', ''antibot_cookie'', ''thin_html_or_js_shell''] \<subseteq> set SIGNAL_TAGS"
    using t1 s by simp
  show ?thesis using s a b sub2 by simp
qed

subsection \<open>Rates of the extracted records\<close>

lemma make_deposit_ok:
  "0 < r \<Longrightarrow> r \<le> 35 / 100 \<Longrightarrow> make_deposit L url b n r = Inr ds \<Longrightarrow> list_all record_ok ds"
  by (auto simp: make_deposit_def record_ok_def split: sum.splits)

lemma gather_all:
  assumes "\<And>x ys. f x = Inr ys \<Longrightarrow> list_all P ys"
  shows "gather f xs = Inr zs \<Longrightarrow> list_all P zs"
  using assms by (induction xs arbitrary: zs) (auto split: sum.splits)

lemma sequence_all:
  "(\<And>ys. Inr ys \<in> set xs \<Longrightarrow> list_all P ys) \<Longrightarrow> sequence xs = Inr zs \<Longrightarrow> list_all P zs"
  by (induction xs arbitrary: zs) (auto split: sum.splits)

lemma table_row_ok:
  assumes "table_row L url b forced ci ri ni tr = Inr ds"
  shows "list_all record_ok ds"
proof (cases "ds = []")
  case True
  then show ?thesis by simp
next
  case False
  from assms False obtain rtext r dname where
    e: "extract_rate_from_text rtext = Some r" and m: "make_deposit L url b dname r = Inr ds"
    by (auto simp: table_row_def Let_def split: if_splits option.splits)
  from extract_rate_range[OF e] m show ?thesis
    by (auto intro: make_deposit_ok)
qed

lemma extract_from_tables_ok:
  "extract_from_tables L soup url b forced = Inr ds \<Longrightarrow> list_all record_ok ds"
  unfolding extract_from_tables_def
proof (erule gather_all[rotated])
  fix table ys
  assume "extract_from_table L url b forced table = Inr ys"
  then show "list_all record_ok ys"
    by (auto simp: extract_from_table_def Let_def split: if_splits
        elim!: gather_all[rotated] intro: table_row_ok)
qed

lemma block_candidate_ok:
  assumes "block_candidate L url b forced block = Inr ds"
  shows "list_all record_ok ds"
proof (cases "ds = []")
  case True
  then show ?thesis by simp
next
  case False
  from assms False obtain rtext r dname where
    e: "extract_rate_from_text rtext = Some r" and m: "make_deposit L url b dname r = Inr ds"
    by (auto simp: block_candidate_def Let_def split: if_splits option.splits)
  from extract_rate_range[OF e] m show ?thesis
    by (auto intro: make_deposit_ok)
qed

lemma extract_from_blocks_ok:
  "extract_from_blocks L soup url b forced = Inr ds \<Longrightarrow> list_all record_ok ds"
  unfolding extract_from_blocks_def by (erule gather_all[rotated]) (rule block_candidate_ok)

lemma json_object_candidate_ok:
  assumes "json_object_candidate L obj url b = Inr ds"
  shows "list_all record_ok ds"
proof (cases "ds = []")
  case True
  then show ?thesis by simp
next
  case False
  from assms False obtain rtext r dname where
    e: "extract_rate_from_text rtext = Some r" and m: "make_deposit L url b dname r = Inr ds"
    by (auto simp: json_object_candidate_def Let_def split: if_splits option.splits)
  from extract_rate_range[OF e] m show ?thesis
    by (auto intro: make_deposit_ok)
qed

lemma walk_json_ok:
  "walk_json L url bnk v = Inr ds \<Longrightarrow> list_all record_ok ds"
proof (induction L url bnk v arbitrary: ds rule: walk_json.induct)
  case (1 L url bnk obj)
  show ?case
  proof (rule sequence_all[OF _ "1.prems"[unfolded walk_json.simps]])
    fix ys
    assume "Inr ys \<in> set (json_object_candidate L obj url bnk
               # map (\<lambda>v. walk_json L url bnk v) (map snd obj))"
    then consider "json_object_candidate L obj url bnk = Inr ys"
      | v where "v \<in> snd ` set obj" "walk_json L url bnk v = Inr ys"
      by force
    then show "list_all record_ok ys"
    proof cases
      case 1
      then show ?thesis by (rule json_object_candidate_ok)
    next
      case 2
      then show ?thesis using "1.IH" by auto
    qed
  qed
next
  case (2 L url bnk items)
  show ?case
  proof (rule sequence_all[OF _ "2.prems"[unfolded walk_json.simps]])
    fix ys
    assume "Inr ys \<in> set (map (walk_json L url bnk) items)"
    then obtain v where "v \<in> set items" "walk_json L url bnk v = Inr ys"
      by force
    then show "list_all record_ok ys"
      using "2.IH" by auto
  qed
qed simp_all

lemma json_endpoint_ok:
  "json_endpoint L N b jurl w = (ds, w') \<Longrightarrow> list_all record_ok ds"
  by (auto simp: json_endpoint_def Let_def split: prod.splits sum.splits if_splits
      dest: walk_json_ok)

lemma json_endpoints_loop_ok:
  "json_endpoints_loop L N b jurls w = (ds, w') \<Longrightarrow> list_all record_ok ds"
  by (induction jurls arbitrary: w ds w')
     (auto split: prod.splits dest: json_endpoint_ok)

lemma extract_from_json_endpoints_ok:
  "extract_from_json_endpoints L N page_url b html w = (Inr ds, w') \<Longrightarrow> list_all record_ok ds"
  by (auto simp: extract_from_json_endpoints_def split: sum.splits prod.splits
      dest: json_endpoints_loop_ok)

lemma json_fallback_ok:
  "(if ds0 = [] then extract_from_json_endpoints L N u b html w1 else (Inr [], w1))
     = (Inr d3, w2) \<Longrightarrow> list_all record_ok d3"
  by (auto split: if_splits dest: extract_from_json_endpoints_ok)

lemma crawl_page_ok:
  "crawl_page L N u depth visited w = (Inr (deps, new), w') \<Longrightarrow> list_all record_ok deps"
  by (auto simp: crawl_page_def Let_def split: prod.splits sum.splits if_splits
      dest!: extract_from_tables_ok extract_from_blocks_ok json_fallback_ok
        extract_from_json_endpoints_ok)

lemma crawl_step_ok:
  "list_all record_ok (cs_all_deps s) \<Longrightarrow> crawl_step L N s w = (Inr s', w') \<Longrightarrow>
   list_all record_ok (cs_all_deps s')"
  by (auto simp: crawl_step_def split: list.splits prod.splits sum.splits if_splits
      dest: crawl_page_ok)

lemma crawl_loop_ok:
  "list_all record_ok (cs_all_deps s) \<Longrightarrow> crawl_loop L N s w = (Inr s', w') \<Longrightarrow>
   list_all record_ok (cs_all_deps s')"
proof (induction L N s w rule: crawl_loop.induct)
  case (1 L N s w)
  show ?case
  proof (cases "crawl_continues s")
    case False
    with "1.prems" show ?thesis by (simp add: crawl_loop.simps)
  next
    case True
    with "1.prems"(2) obtain s1 w1 where st: "crawl_step L N s w = (Inr s1, w1)"
      and l: "crawl_loop L N s1 w1 = (Inr s', w')"
      by (auto simp: crawl_loop.simps[of L N s w] split: prod.splits sum.splits)
    from "1.IH"[OF True st[symmetric] refl crawl_step_ok[OF "1.prems"(1) st] l]
    show ?thesis .
  qed
qed

lemma parse_universal_ok:
  assumes "parse_universal L N url w = (Inr ds, w')"
  shows "list_all record_ok ds"
proof -
  from assms obtain s where
    l: "crawl_loop L N \<lparr>cs_visited = {||}, cs_q = [(url, 0)], cs_all_deps = [], cs_pages = []\<rparr> w
          = (Inr s, w')" and d: "ds = dedup (cs_all_deps s)"
    by (auto simp: parse_universal_def split: prod.splits sum.splits)
  have "list_all record_ok (cs_all_deps s)"
    by (rule crawl_loop_ok[OF _ l]) simp
  with dedup_subset[of "cs_all_deps s"] show ?thesis
    unfolding d list_all_iff by blast
qed


definition xb_ok :: "string \<times> Deposit \<Rightarrow> bool" where
  "xb_ok kd = (0 \<le> dep_rate (snd kd) \<and> dep_rate (snd kd) \<le> 35 / 100
     \<and> dep_currency (snd kd) = ''USD'')"

lemma xb_item_ok:
  "list_all xb_ok out \<Longrightarrow> xb_item L url out item = Inr out' \<Longrightarrow> list_all xb_ok out'"
  by (auto simp: xb_item_def xb_ok_def setdefault_def MAX_USD_RATE_def Let_def
      split: json.splits pyfloat.splits if_splits)

lemma xb_loop_ok:
  "list_all xb_ok out \<Longrightarrow> xb_loop L url items out = Inr out' \<Longrightarrow> list_all xb_ok out'"
  by (induction items arbitrary: out) (auto split: sum.splits dest: xb_item_ok)

lemma parse_xb_open_data_closed_range:
  assumes "parse_xb_open_data L N url w = (Inr ds, w')"
  shows "list_all (\<lambda>d. 0 \<le> dep_rate d \<and> dep_rate d \<le> 35 / 100 \<and> dep_currency d = ''USD'') ds"
proof -
  from assms obtain items out where l: "xb_loop L url items [] = Inr out" and d: "ds = map snd out"
    by (auto simp: parse_xb_open_data_def split: prod.splits sum.splits)
  have "list_all xb_ok out"
    by (rule xb_loop_ok[OF _ l]) simp
  then show ?thesis
    unfolding d by (simp add: list_all_iff xb_ok_def)
qed


lemma fetch_open_data:
  "fetch (net_open_data x) url w
     = (Inr (if url = XB_API_URL then open_data x else page_empty), Suc w)"
  by (simp add: fetch_def fetch_once_def net_open_data_def open_data_def page_empty_def)

lemma xb_empty_rate:
  "parse_xb_open_data L (net_open_data []) ''https://xb.uz/'' w
     = (Inr [\<lparr>dep_bank = ''Xalq banki'', dep_site = ''xb.uz'', dep_name = ''USD omonat'',
              dep_rate = 0, dep_currency = ''USD'', dep_url = ''https://xb.uz/''\<rparr>], Suc w)"
  by (simp add: parse_xb_open_data_def fetch_open_data open_data_def json_iter_def xb_item_def
      xb_field_def str_of_def strip_def isspace_def is_usd_context_def any_in_def USD_POS_def
      USD_NEG_def lower_def lower_char_def isupper_def parse_percent_def MAX_USD_RATE_def
      setdefault_def Let_def)

lemma domain_xb: "domain_of L ''https://xb.uz/'' = Inr ''xb.uz''"
  by (simp add: domain_of_def urlsplit_def url_clean_def strip_scheme_def is_ascii_alpha_def
      scheme_char_def netloc_end_def isdecimal_def lower_def lower_char_def isupper_def)

text \<open>
  C1. The records of the table, block and JSON-endpoint strategies have a rate in
  (0, 0.35] and the currency USD (\<open>parse_universal_ok\<close>). The structured-data strategy
  tests \<open>0.0 <= rate\<close> where the others test \<open>0.0 < rate\<close>
  (\<open>parse_xb_open_data_closed_range\<close>), and \<open>parse_percent\<close> gives 0 for an empty or
  unreadable text: an open-data item whose annual rate is empty becomes a record of
  rate 0.
\<close>

theorem xb_record_with_rate_zero:
  "parse_url L (net_open_data []) ''https://xb.uz/'' w
     = (Inr [\<lparr>dep_bank = ''Xalq banki'', dep_site = ''xb.uz'', dep_name = ''USD omonat'',
              dep_rate = 0, dep_currency = ''USD'', dep_url = ''https://xb.uz/''\<rparr>], Suc w)"
  by (simp add: parse_url_def domain_xb endswith_def xb_empty_rate)

subsection \<open>Dispatch\<close>













subsection \<open>Site outcomes\<close>

lemma process_site_blocked:
  assumes "http_get N url w = (Inr r, w1)"
    and "is_hard_block (Some (status_code r)) (snd (diagnose_response url r))"
  shows "process_site L N url site_dom w =
     ((\<lparr>st_input_url = url, st_domain = site_dom, st_http_status = Some (status_code r),
        st_signals = snd (diagnose_response url r), st_result = ''BLOCKED'',
        st_note = (if snd (diagnose_response url r) \<noteq> [] then snd (diagnose_response url r)
                   else ''status='' @ str_int (status_code r)),
        st_rows_found = 0\<rparr>, []), w1)"
  using assms by (simp add: process_site_def Let_def)

lemma process_site_rows:
  assumes "http_get N url w = (Inr r, w1)"
    and "\<not> is_hard_block (Some (status_code r)) (snd (diagnose_response url r))"
    and "parse_url L N url w1 = (Inr deps, w2)"
  shows "process_site L N url site_dom w =
     ((\<lparr>st_input_url = url, st_domain = site_dom, st_http_status = Some (status_code r),
        st_signals = snd (diagnose_response url r),
        st_result = (if deps \<noteq> [] then ''OK'' else fst (zero_rows_result (body_text r))),
        st_note = (if deps \<noteq> [] then [] else snd (zero_rows_result (body_text r))),
        st_rows_found = length deps\<rparr>, deps), w2)"
  using assms by (simp add: process_site_def Let_def split_beta)

lemma zero_rows_kind:
  "fst (zero_rows_result html) =
     (if looks_js_empty html then ''JS_RENDER_REQUIRED''
      else if \<not> simple_has_usd html then ''NO_USD_MATCH''
      else if \<not> simple_has_percent html then ''NO_RATES_FOUND''
      else ''NO_MATCHING_DEPOSITS'')"
  by (simp add: zero_rows_result_def)

lemma status_503_blocks: "is_hard_block (Some 503) signals"
  by (simp add: is_hard_block_def)

lemma simple_has_percent_char: "simple_has_percent html = (CHR ''%'' \<in> set html)"
  by (induction html) (auto simp: simple_has_percent_def)

lemma process_site_get_error:
  "http_get N url w = (Inl e, w1) \<Longrightarrow>
   process_site L N url site_dom w = ((error_status url site_dom None [] e, []), w1)"
  by (simp add: process_site_def)

lemma process_site_crawl_error:
  assumes "http_get N url w = (Inr r, w1)"
    and "\<not> is_hard_block (Some (status_code r)) (snd (diagnose_response url r))"
    and "parse_url L N url w1 = (Inl e, w2)"
  shows "process_site L N url site_dom w =
     ((error_status url site_dom (Some (status_code r)) (snd (diagnose_response url r)) e, []),
      w2)"
  using assms by (simp add: process_site_def Let_def)

lemma process_site_url: "st_input_url (fst (fst (process_site L N url site_dom w))) = url"
  by (auto simp: process_site_def error_status_def Let_def split_beta
      split: prod.splits sum.splits)

lemma main_loop_isolated:
  assumes "list_all (\<lambda>url. \<exists>d. domain_of L url = Inr d) urls"
  shows "\<exists>sites deposits_all w'. main_loop L N urls w = (Inr (sites, deposits_all), w')
           \<and> map st_input_url sites = urls"
  using assms
proof (induction urls arbitrary: w)
  case Nil
  then show ?case by simp
next
  case (Cons url urls)
  then obtain d where d: "domain_of L url = Inr d" by auto
  obtain st deps w1 where p: "process_site L N url d w = ((st, deps), w1)"
    by (metis prod.exhaust)
  from Cons.IH[of w1] Cons.prems obtain sites deposits_all w' where
    m: "main_loop L N urls w1 = (Inr (sites, deposits_all), w')"
    and u: "map st_input_url sites = urls"
    by auto
  have "st_input_url st = url"
    using process_site_url[of L N url d w] p by simp
  then show ?case
    by (simp add: d p m u)
qed

text \<open>
  C5. Inside the \<open>try\<close> statement every failure becomes a status \<open>ERROR\<close>
  (\<open>process_site_get_error\<close>, \<open>process_site_crawl_error\<close>), and when the domain of every
  input URL can be computed the loop gives one status per URL, in input order
  (\<open>main_loop_isolated\<close>). But \<open>dom = domain_of(url)\<close> stands before the \<open>try\<close>, and
  \<open>urlparse\<close> raises \<open>ValueError\<close> on a network location with an unmatched bracket: such
  an input line ends the loop, with no status for it or for the URLs after it.
\<close>

theorem main_loop_aborts_on_bracket:
  "main_loop L N [''http://['', ''https://bank.example/''] w
     = (Inl (Exn ''ValueError'' ''Invalid IPv6 URL''), w)"
proof -
  have "domain_of L ''http://['' = Inl (Exn ''ValueError'' ''Invalid IPv6 URL'')"
    by (simp add: domain_of_def urlsplit_def url_clean_def strip_scheme_def is_ascii_alpha_def
        scheme_char_def netloc_end_def isdecimal_def)
  then show ?thesis by simp
qed

text \<open>
  C4. When the root request returns a response: a hard-block diagnosis gives \<open>BLOCKED\<close>
  with no rows, and the state of the network is the one after the root request (nothing
  is crawled), as for a root response of status 503. Otherwise, when the dispatched
  strategy returns its records, the result is \<open>OK\<close> for at least one record, else
  \<open>JS_RENDER_REQUIRED\<close> for a root page that looks JS-empty, else \<open>NO_USD_MATCH\<close> for a
  root body without a USD token, else \<open>NO_RATES_FOUND\<close> for a root body without a percent
  sign, else \<open>NO_MATCHING_DEPOSITS\<close>; the number of rows is the number of records.
\<close>

theorem result_kind_priority:
  "(http_get N url w = (Inr r, w1)
      \<and> is_hard_block (Some (status_code r)) (snd (diagnose_response url r)) \<longrightarrow>
      process_site L N url site_dom w =
        ((\<lparr>st_input_url = url, st_domain = site_dom, st_http_status = Some (status_code r),
           st_signals = snd (diagnose_response url r), st_result = ''BLOCKED'',
           st_note = (if snd (diagnose_response url r) \<noteq> []
                      then snd (diagnose_response url r)
                      else ''status='' @ str_int (status_code r)),
           st_rows_found = 0\<rparr>, []), w1))
   \<and> (http_get N url w = (Inr r, w1) \<and> status_code r = 503 \<longrightarrow>
        st_result (fst (fst (process_site L N url site_dom w))) = ''BLOCKED''
        \<and> st_rows_found (fst (fst (process_site L N url site_dom w))) = 0
        \<and> snd (process_site L N url site_dom w) = w1)
   \<and> (http_get N url w = (Inr r, w1)
        \<and> \<not> is_hard_block (Some (status_code r)) (snd (diagnose_response url r))
        \<and> parse_url L N url w1 = (Inr deps, w2) \<longrightarrow>
        st_result (fst (fst (process_site L N url site_dom w))) =
          (if deps \<noteq> [] then ''OK''
           else if looks_js_empty (body_text r) then ''JS_RENDER_REQUIRED''
           else if \<not> simple_has_usd (body_text r) then ''NO_USD_MATCH''
           else if \<not> simple_has_percent (body_text r) then ''NO_RATES_FOUND''
           else ''NO_MATCHING_DEPOSITS'')
        \<and> st_rows_found (fst (fst (process_site L N url site_dom w))) = length deps
        \<and> snd (fst (process_site L N url site_dom w)) = deps)
   \<and> simple_has_usd html = any_in [''usd'', ''$'', ''dollar'', ''aqsh''] (lower html)
   \<and> simple_has_percent html = (CHR ''%'' \<in> set html)"
proof (intro conjI impI)
  assume a: "http_get N url w = (Inr r, w1)
      \<and> is_hard_block (Some (status_code r)) (snd (diagnose_response url r))"
  then show "process_site L N url site_dom w =
        ((\<lparr>st_input_url = url, st_domain = site_dom, st_http_status = Some (status_code r),
           st_signals = snd (diagnose_response url r), st_result = ''BLOCKED'',
           st_note = (if snd (diagnose_response url r) \<noteq> []
                      then snd (diagnose_response url r)
                      else ''status='' @ str_int (status_code r)),
           st_rows_found = 0\<rparr>, []), w1)"
    using process_site_blocked[of N url w r w1 L site_dom] by blast
next
  assume a: "http_get N url w = (Inr r, w1) \<and> status_code r = 503"
  then have b: "is_hard_block (Some (status_code r)) (snd (diagnose_response url r))"
    by (simp add: status_503_blocks)
  note p = process_site_blocked[OF a[THEN conjunct1] b, of L site_dom]
  show "st_result (fst (fst (process_site L N url site_dom w))) = ''BLOCKED''"
    by (simp add: p)
  show "st_rows_found (fst (fst (process_site L N url site_dom w))) = 0"
    by (simp add: p)
  show "snd (process_site L N url site_dom w) = w1"
    by (simp add: p)
next
  assume a: "http_get N url w = (Inr r, w1)
        \<and> \<not> is_hard_block (Some (status_code r)) (snd (diagnose_response url r))
        \<and> parse_url L N url w1 = (Inr deps, w2)"
  note p = process_site_rows[OF a[THEN conjunct1] a[THEN conjunct2, THEN conjunct1]
      a[THEN conjunct2, THEN conjunct2], of site_dom]
  show "st_result (fst (fst (process_site L N url site_dom w))) =
          (if deps \<noteq> [] then ''OK''
           else if looks_js_empty (body_text r) then ''JS_RENDER_REQUIRED''
           else if \<not> simple_has_usd (body_text r) then ''NO_USD_MATCH''
           else if \<not> simple_has_percent (body_text r) then ''NO_RATES_FOUND''
           else ''NO_MATCHING_DEPOSITS'')"
    by (simp add: p zero_rows_kind)
  show "st_rows_found (fst (fst (process_site L N url site_dom w))) = length deps"
    by (simp add: p)
  show "snd (fst (process_site L N url site_dom w)) = deps"
    by (simp add: p)
next
  show "simple_has_usd html = any_in [''usd'', ''$'', ''dollar'', ''aqsh''] (lower html)"
    by (simp add: simple_has_usd_def USD_TOKENS_def)
  show "simple_has_percent html = (CHR ''%'' \<in> set html)"
    by (rule simple_has_percent_char)
qed


text \<open>
  The theorem at a site that answers 503, and at the URL \<open>https://xb.uz/\<close> with an
  open-data endpoint of one deposit.
\<close>

theorem result_kind_priority_witness:
  "http_get (net_status 503) ''https://bank.example/'' 0
     = (Inr (page_empty\<lparr>status_code := 503\<rparr>), 1)
   \<and> status_code (page_empty\<lparr>status_code := 503\<rparr>) = 503
   \<and> st_result (fst (fst (process_site lib_plain (net_status 503) ''https://bank.example/''
         ''bank.example'' 0))) = ''BLOCKED''
   \<and> st_rows_found (fst (fst (process_site lib_plain (net_status 503) ''https://bank.example/''
         ''bank.example'' 0))) = 0
   \<and> snd (process_site lib_plain (net_status 503) ''https://bank.example/'' ''bank.example'' 0) = 1
   \<and> http_get (net_open_data ''5%'') ''https://xb.uz/'' 0 = (Inr page_empty, 1)
   \<and> \<not> is_hard_block (Some (status_code page_empty))
         (snd (diagnose_response ''https://xb.uz/'' page_empty))
   \<and> parse_url lib_plain (net_open_data ''5%'') ''https://xb.uz/'' 1
       = (Inr [\<lparr>dep_bank = ''Xalq banki'', dep_site = ''xb.uz'', dep_name = ''USD omonat'',
                dep_rate = 5 / 100, dep_currency = ''USD'', dep_url = ''https://xb.uz/''\<rparr>],
          2)
   \<and> st_result (fst (fst (process_site lib_plain (net_open_data ''5%'') ''https://xb.uz/''
         ''xb.uz'' 0))) = ''OK''
   \<and> st_rows_found (fst (fst (process_site lib_plain (net_open_data ''5%'') ''https://xb.uz/''
         ''xb.uz'' 0))) = 1"
proof -
  let ?rec = "\<lparr>dep_bank = ''Xalq banki'', dep_site = ''xb.uz'', dep_name = ''USD omonat'',
                dep_rate = 5 / 100, dep_currency = ''USD'', dep_url = ''https://xb.uz/''\<rparr>"
  have g1: "http_get (net_status 503) ''https://bank.example/'' 0
     = (Inr (page_empty\<lparr>status_code := 503\<rparr>), 1)"
    by (simp add: net_status_def)
  have s1: "status_code (page_empty\<lparr>status_code := 503\<rparr>) = 503"
    by simp
  note t1 = result_kind_priority[of "net_status 503" "''https://bank.example/''" 0
      "page_empty\<lparr>status_code := 503\<rparr>" 1 lib_plain "''bank.example''" "[]" 0 "[]"]
  from mp[OF t1[THEN conjunct2, THEN conjunct1] conjI[OF g1 s1]]
  have b: "st_result (fst (fst (process_site lib_plain (net_status 503) ''https://bank.example/''
         ''bank.example'' 0))) = ''BLOCKED''
     \<and> st_rows_found (fst (fst (process_site lib_plain (net_status 503)
         ''https://bank.example/'' ''bank.example'' 0))) = 0
     \<and> snd (process_site lib_plain (net_status 503) ''https://bank.example/''
         ''bank.example'' 0) = 1" .
  have g2: "http_get (net_open_data ''5%'') ''https://xb.uz/'' 0 = (Inr page_empty, 1)"
    by (simp add: net_open_data_def XB_API_URL_def)
  have h2: "\<not> is_hard_block (Some (status_code page_empty))
         (snd (diagnose_response ''https://xb.uz/'' page_empty))"
    by code_simp
  have p2: "parse_url lib_plain (net_open_data ''5%'') ''https://xb.uz/'' 1 = (Inr [?rec], 2)"
    by code_simp
  note t2 = result_kind_priority[of "net_open_data ''5%''" "''https://xb.uz/''" 0
      page_empty 1 lib_plain "''xb.uz''" "[?rec]" 2 "[]"]
  from mp[OF t2[THEN conjunct2, THEN conjunct2, THEN conjunct1] conjI[OF g2 conjI[OF h2 p2]]]
  have ok: "st_result (fst (fst (process_site lib_plain (net_open_data ''5%'') ''https://xb.uz/''
         ''xb.uz'' 0))) = ''OK''
     \<and> st_rows_found (fst (fst (process_site lib_plain (net_open_data ''5%'')
         ''https://xb.uz/'' ''xb.uz'' 0))) = 1"
    by simp
  show ?thesis
    by (intro conjI g1 s1 b[THEN conjunct1] b[THEN conjunct2, THEN conjunct1]
        b[THEN conjunct2, THEN conjunct2] g2 h2 p2 ok[THEN conjunct1] ok[THEN conjunct2])
qed

subsection \<open>Crawl frontier\<close>

lemma crawl_rel_wf: "wf (crawl_rel L N)"
proof (rule wf_subset)
  show "wf ((\<lambda>(s, w). 20 - fcard (cs_visited s)) <*mlex*> measure (\<lambda>(s, w). length (cs_q s)))"
    by (simp add: wf_mlex)
  show "crawl_rel L N
      \<subseteq> (\<lambda>(s, w). 20 - fcard (cs_visited s)) <*mlex*> measure (\<lambda>(s, w). length (cs_q s))"
  proof
    fix x
    assume "x \<in> crawl_rel L N"
    then obtain s w s' w' where x: "x = ((s', w'), (s, w))"
      and c: "crawl_continues s" and st: "crawl_step L N s w = (Inr s', w')"
      by (auto simp: crawl_rel_def)
    from c have lt: "fcard (cs_visited s) < 20" by (simp add: crawl_continues_def)
    from crawl_step_decreases[OF c st] lt
    show "x \<in> (\<lambda>(s, w). 20 - fcard (cs_visited s)) <*mlex*> measure (\<lambda>(s, w). length (cs_q s))"
      unfolding x by (auto simp: mlex_prod_def)
  qed
qed

lemma collect_links_loop_bound:
  "length out < limit \<Longrightarrow> collect_links_loop L base limit as seen out = Inr res \<Longrightarrow>
   length res \<le> limit"
proof (induction as arbitrary: seen out)
  case Nil
  then show ?case by simp
next
  case (Cons a as)
  show ?case
  proof (cases "href_of a = []")
    case True
    with Cons show ?thesis by simp
  next
    case h: False
    show ?thesis
    proof (cases "urljoin L base (href_of a)")
      case (Inl e)
      with Cons.prems h show ?thesis by simp
    next
      case (Inr u)
      show ?thesis
      proof (cases "is_http u")
        case False
        with Cons h Inr show ?thesis by simp
      next
        case http: True
        show ?thesis
        proof (cases "same_domain L base u")
          case (Inl e)
          with Cons.prems h Inr http show ?thesis by simp
        next
          case same: (Inr b)
          show ?thesis
          proof (cases "b \<and> u \<notin> seen")
            case False
            with Cons.prems h Inr http same
            have "collect_links_loop L base limit as seen out = Inr res"
              by (cases b) (simp_all split: if_splits)
            with Cons.prems(1) show ?thesis
              by (rule Cons.IH)
          next
            case True
            define out' where "out' = (if link_wanted (lower u) (lower (norm_py (get_text a)))
                                       then out @ [u] else out)"
            have le: "length out' \<le> limit"
              using Cons.prems(1) by (simp add: out'_def)
            show ?thesis
            proof (cases "limit \<le> length out'")
              case stop: True
              with Cons.prems(2) h Inr http same True have "res = out'"
                by (simp add: out'_def Let_def)
              with le show ?thesis by simp
            next
              case False
              with Cons.prems(2) h Inr http same True
              have "collect_links_loop L base limit as (insert u seen) out' = Inr res"
                by (simp add: out'_def Let_def)
              with False show ?thesis
                by (intro Cons.IH[of out' "insert u seen"]) simp_all
            qed
          qed
        qed
      qed
    qed
  qed
qed

lemma collect_links_bound:
  "0 < limit \<Longrightarrow> collect_links L base soup limit = Inr links \<Longrightarrow> length links \<le> limit"
  unfolding collect_links_def by (rule collect_links_loop_bound) simp_all

lemma crawl_page_new:
  assumes "crawl_page L N u depth visited w = (Inr (deps, new), w')"
  shows "list_all (\<lambda>e. snd e = depth + 1) new \<and> (1 \<le> depth \<longrightarrow> new = [])
         \<and> length new \<le> 200"
proof (cases "depth < 1")
  case False
  with assms have "new = []"
    by (auto simp: crawl_page_def Let_def split: prod.splits sum.splits if_splits)
  with False show ?thesis by simp
next
  case True
  with assms obtain soup links where c: "collect_links L u soup 200 = Inr links"
    and n: "new = map (\<lambda>link. (link, depth + 1)) (filter (\<lambda>link. link |\<notin>| visited) links)"
    by (auto simp: crawl_page_def Let_def split: prod.splits sum.splits if_splits)
  have "length new \<le> length links"
    unfolding n by simp
  also have "\<dots> \<le> 200"
    using collect_links_bound[OF _ c] by simp
  finally have "length new \<le> 200" .
  with True n show ?thesis
    by (simp add: list_all_iff)
qed


lemma crawl_inv_init: "crawl_inv url (crawl_init url)"
  by (simp add: crawl_inv_def crawl_init_def)

lemma crawl_step_skip:
  "cs_q s = (u, d) # rest \<Longrightarrow> u |\<in>| cs_visited s \<Longrightarrow>
   crawl_step L N s w = (Inr (s\<lparr>cs_q := rest\<rparr>), w)"
  by (simp add: crawl_step_def)

lemma crawl_step_visit:
  assumes "cs_q s = (u, d) # rest" and "u |\<notin>| cs_visited s"
    and "crawl_step L N s w = (Inr s', w')"
  shows "\<exists>deps new. crawl_page L N u d (finsert u (cs_visited s)) w = (Inr (deps, new), w')
     \<and> s' = \<lparr>cs_visited = finsert u (cs_visited s), cs_q = rest @ new,
              cs_all_deps = cs_all_deps s @ deps, cs_pages = cs_pages s @ [u]\<rparr>"
  using assms by (auto simp: crawl_step_def split: prod.splits sum.splits)

lemma crawl_invD:
  assumes "crawl_inv url s"
  shows "cs_visited s = fset_of_list (cs_pages s)" and "distinct (cs_pages s)"
    and "length (cs_pages s) = fcard (cs_visited s)" and "length (cs_pages s) \<le> 20"
    and "s = crawl_init url \<or> list_all (\<lambda>e. snd e = 1) (cs_q s)"
  using assms unfolding crawl_inv_def by blast+

lemma crawl_inv_step:
  assumes i: "crawl_inv url s" and c: "crawl_continues s"
    and st: "crawl_step L N s w = (Inr s', w')"
  shows "crawl_inv url s'"
proof -
  note i1 = crawl_invD(1)[OF i] and i2 = crawl_invD(2)[OF i] and i3 = crawl_invD(3)[OF i]
    and i4 = crawl_invD(4)[OF i] and i5 = crawl_invD(5)[OF i]
  obtain u d rest where q: "cs_q s = (u, d) # rest"
    using c by (cases "cs_q s") (auto simp: crawl_continues_def)
  from c have lt: "fcard (cs_visited s) < 20"
    by (simp add: crawl_continues_def)
  show ?thesis
  proof (cases "u |\<in>| cs_visited s")
    case True
    with st q have s': "s' = s\<lparr>cs_q := rest\<rparr>"
      by (simp add: crawl_step_skip)
    from True have "s \<noteq> crawl_init url"
      by (auto simp: crawl_init_def)
    with i5 q have "list_all (\<lambda>e. snd e = 1) rest"
      by simp
    then show ?thesis
      unfolding crawl_inv_def s' using i1 i2 i3 i4 by simp
  next
    case False
    from crawl_step_visit[OF q False st] obtain deps new where
      p: "crawl_page L N u d (finsert u (cs_visited s)) w = (Inr (deps, new), w')"
      and s': "s' = \<lparr>cs_visited = finsert u (cs_visited s), cs_q = rest @ new,
              cs_all_deps = cs_all_deps s @ deps, cs_pages = cs_pages s @ [u]\<rparr>"
      by blast
    from False have notin: "u \<notin> set (cs_pages s)"
      unfolding i1 by (simp add: fset_of_list_elem)
    have rest1: "list_all (\<lambda>e. snd e = 1) rest"
      using i5 q by (auto simp: crawl_init_def)
    have new1: "list_all (\<lambda>e. snd e = 1) new"
    proof (cases "s = crawl_init url")
      case True
      with q have "d = 0" by (simp add: crawl_init_def)
      with crawl_page_new[OF p] show ?thesis by simp
    next
      case False
      with i5 q have "d = 1" by simp
      with crawl_page_new[OF p] show ?thesis by simp
    qed
    have v: "cs_visited s' = fset_of_list (cs_pages s')"
      unfolding s' using i1 by auto
    have ds: "distinct (cs_pages s')"
      unfolding s' using i2 notin by simp
    have len: "length (cs_pages s') = fcard (cs_visited s')"
      unfolding s' using i3 False by (simp add: fcard_finsert_disjoint)
    have le: "length (cs_pages s') \<le> 20"
      unfolding s' using i3 lt by simp
    have dq: "list_all (\<lambda>e. snd e = 1) (cs_q s')"
      unfolding s' using rest1 new1 by simp
    show ?thesis
      unfolding crawl_inv_def using v ds len le dq by blast
  qed
qed

lemma crawl_reach_inv: "crawl_reach L N url w0 s w \<Longrightarrow> crawl_inv url s"
  by (induction rule: crawl_reach.induct) (auto intro: crawl_inv_init crawl_inv_step)

lemma crawl_loop_reach:
  "crawl_reach L N url w0 s w \<Longrightarrow> crawl_loop L N s w = (Inr s', w') \<Longrightarrow>
   crawl_reach L N url w0 s' w' \<and> \<not> crawl_continues s'"
proof (induction L N s w rule: crawl_loop.induct)
  case (1 L N s w)
  show ?case
  proof (cases "crawl_continues s")
    case False
    with "1.prems" show ?thesis by (simp add: crawl_loop.simps)
  next
    case True
    with "1.prems"(2) obtain s1 w1 where st: "crawl_step L N s w = (Inr s1, w1)"
      and l: "crawl_loop L N s1 w1 = (Inr s', w')"
      by (auto simp: crawl_loop.simps[of L N s w] split: prod.splits sum.splits)
    have "crawl_reach L N url w0 s1 w1"
      using "1.prems"(1) True st by (rule reach_step)
    from "1.IH"[OF True st[symmetric] refl this l] show ?thesis .
  qed
qed

lemma parse_universal_reach:
  assumes "parse_universal L N url w0 = (Inr ds, w)"
  shows "\<exists>s. crawl_reach L N url w0 s w \<and> \<not> crawl_continues s \<and> ds = dedup (cs_all_deps s)"
proof -
  from assms obtain s where l: "crawl_loop L N (crawl_init url) w0 = (Inr s, w)"
    and d: "ds = dedup (cs_all_deps s)"
    by (auto simp: parse_universal_def crawl_init_def split: prod.splits sum.splits)
  from crawl_loop_reach[OF reach_init l] d show ?thesis by blast
qed

lemma crawl_reach_frontier:
  assumes "crawl_reach L N url w0 s w"
  shows "length (cs_pages s) \<le> 20 \<and> distinct (cs_pages s)
     \<and> cs_visited s = fset_of_list (cs_pages s)
     \<and> list_all (\<lambda>e. snd e = 0 \<or> snd e = 1) (cs_q s)
     \<and> (s = crawl_init url \<or> list_all (\<lambda>e. snd e = 1) (cs_q s))"
proof -
  from crawl_reach_inv[OF assms] have i: "crawl_inv url s" .
  have "list_all (\<lambda>e. snd e = 0 \<or> snd e = 1) (cs_q s)"
    using crawl_invD(5)[OF i] by (auto simp: crawl_init_def list_all_iff)
  with crawl_invD[OF i] show ?thesis by blast
qed

lemma crawl_reach_pass:
  assumes r: "crawl_reach L N url w0 s w" and q: "cs_q s = (u, d) # rest"
    and st: "crawl_step L N s w = (Inr s', w')"
  shows "(u |\<in>| cs_visited s \<longrightarrow> s' = s\<lparr>cs_q := rest\<rparr> \<and> w' = w)
     \<and> (1 \<le> d \<longrightarrow> cs_q s' = rest)
     \<and> (d = 0 \<longrightarrow> s = crawl_init url)"
proof (intro conjI impI)
  assume "u |\<in>| cs_visited s"
  with st q have both: "s' = s\<lparr>cs_q := rest\<rparr> \<and> w' = w"
    by (simp add: crawl_step_skip)
  from both show "s' = s\<lparr>cs_q := rest\<rparr>" by (rule conjunct1)
  from both show "w' = w" by (rule conjunct2)
next
  assume d: "1 \<le> d"
  show "cs_q s' = rest"
  proof (cases "u |\<in>| cs_visited s")
    case True
    with st q have "s' = s\<lparr>cs_q := rest\<rparr>"
      by (simp add: crawl_step_skip)
    then show ?thesis by simp
  next
    case False
    from crawl_step_visit[OF q False st] obtain deps new where
      p: "crawl_page L N u d (finsert u (cs_visited s)) w = (Inr (deps, new), w')"
      and s': "cs_q s' = rest @ new"
      by auto
    with crawl_page_new[OF p] d show ?thesis by simp
  qed
next
  assume "d = 0"
  with crawl_invD(5)[OF crawl_reach_inv[OF r]] q show "s = crawl_init url"
    by auto
qed


text \<open>
  C6. The passes of the crawl loop form a well-founded relation, so the loop, a total
  function that satisfies the equation of the \<open>while\<close> statement, ends from every state.
  In every state that a crawl reaches, at most 20 pages were processed, no URL twice, and
  they are the visited set; every queue entry has depth 0 or 1, depth 0 only in the
  state before the first pass. A pass on a visited URL only drops the entry and makes no
  request; a pass on an entry of depth 1 enqueues nothing; an entry of depth 0 is the
  root. At most 200 links are harvested from a page, and a page enqueues at most 200
  entries, each one level below it. What the crawl returns is the deduplicated list of
  a reached state in which the loop test fails.
\<close>

theorem crawl_terminates_and_is_bounded:
  "wf (crawl_rel L N)
   \<and> crawl_loop L N s w =
       (if crawl_continues s
        then (case crawl_step L N s w of
                (Inl e, w') \<Rightarrow> (Inl e, w')
              | (Inr s', w') \<Rightarrow> crawl_loop L N s' w')
        else (Inr s, w))
   \<and> crawl_continues s = (cs_q s \<noteq> [] \<and> fcard (cs_visited s) < 20)
   \<and> (crawl_reach L N url w0 s w \<longrightarrow>
        length (cs_pages s) \<le> 20 \<and> distinct (cs_pages s)
        \<and> cs_visited s = fset_of_list (cs_pages s)
        \<and> list_all (\<lambda>e. snd e = 0 \<or> snd e = 1) (cs_q s)
        \<and> (s = crawl_init url \<or> list_all (\<lambda>e. snd e = 1) (cs_q s)))
   \<and> (crawl_reach L N url w0 s w \<and> cs_q s = (u, d) # rest
        \<and> crawl_step L N s w = (Inr s1, w1) \<longrightarrow>
        (u |\<in>| cs_visited s \<longrightarrow> s1 = s\<lparr>cs_q := rest\<rparr> \<and> w1 = w)
        \<and> (1 \<le> d \<longrightarrow> cs_q s1 = rest)
        \<and> (d = 0 \<longrightarrow> s = crawl_init url))
   \<and> (collect_links L base soup 200 = Inr links \<longrightarrow> length links \<le> 200)
   \<and> (crawl_page L N u d visited w = (Inr (deps, new), w1) \<longrightarrow>
        length new \<le> 200 \<and> list_all (\<lambda>e. snd e = d + 1) new \<and> (1 \<le> d \<longrightarrow> new = []))
   \<and> (parse_universal L N url w0 = (Inr ds, w) \<longrightarrow>
        (\<exists>sf. crawl_reach L N url w0 sf w \<and> \<not> crawl_continues sf
              \<and> ds = dedup (cs_all_deps sf)))"
proof (intro conjI)
  show "wf (crawl_rel L N)"
    by (rule crawl_rel_wf)
  show "crawl_loop L N s w =
       (if crawl_continues s
        then (case crawl_step L N s w of
                (Inl e, w') \<Rightarrow> (Inl e, w')
              | (Inr s', w') \<Rightarrow> crawl_loop L N s' w')
        else (Inr s, w))"
    by (rule crawl_loop.simps)
  show "crawl_continues s = (cs_q s \<noteq> [] \<and> fcard (cs_visited s) < 20)"
    by (rule crawl_continues_def)
  show "crawl_reach L N url w0 s w \<longrightarrow>
        length (cs_pages s) \<le> 20 \<and> distinct (cs_pages s)
        \<and> cs_visited s = fset_of_list (cs_pages s)
        \<and> list_all (\<lambda>e. snd e = 0 \<or> snd e = 1) (cs_q s)
        \<and> (s = crawl_init url \<or> list_all (\<lambda>e. snd e = 1) (cs_q s))"
    by (intro impI) (rule crawl_reach_frontier)
  show "crawl_reach L N url w0 s w \<and> cs_q s = (u, d) # rest
        \<and> crawl_step L N s w = (Inr s1, w1) \<longrightarrow>
        (u |\<in>| cs_visited s \<longrightarrow> s1 = s\<lparr>cs_q := rest\<rparr> \<and> w1 = w)
        \<and> (1 \<le> d \<longrightarrow> cs_q s1 = rest)
        \<and> (d = 0 \<longrightarrow> s = crawl_init url)"
  proof
    assume a: "crawl_reach L N url w0 s w \<and> cs_q s = (u, d) # rest
        \<and> crawl_step L N s w = (Inr s1, w1)"
    show "(u |\<in>| cs_visited s \<longrightarrow> s1 = s\<lparr>cs_q := rest\<rparr> \<and> w1 = w)
        \<and> (1 \<le> d \<longrightarrow> cs_q s1 = rest)
        \<and> (d = 0 \<longrightarrow> s = crawl_init url)"
      by (rule crawl_reach_pass[OF a[THEN conjunct1] a[THEN conjunct2, THEN conjunct1]
            a[THEN conjunct2, THEN conjunct2]])
  qed
  show "collect_links L base soup 200 = Inr links \<longrightarrow> length links \<le> 200"
    using collect_links_bound[of 200 L base soup links] by simp
  show "crawl_page L N u d visited w = (Inr (deps, new), w1) \<longrightarrow>
        length new \<le> 200 \<and> list_all (\<lambda>e. snd e = d + 1) new \<and> (1 \<le> d \<longrightarrow> new = [])"
    using crawl_page_new[of L N u d visited w deps new w1] by blast
  show "parse_universal L N url w0 = (Inr ds, w) \<longrightarrow>
        (\<exists>sf. crawl_reach L N url w0 sf w \<and> \<not> crawl_continues sf
              \<and> ds = dedup (cs_all_deps sf))"
    by (intro impI) (rule parse_universal_reach)
qed

text \<open>
  The theorem at the crawl of \<open>https://bank.example/\<close> on a network of empty pages, and
  at the links of a page with one deposit link and one other link.
\<close>

theorem crawl_terminates_and_is_bounded_witness:
  "crawl_reach lib_plain (net_open_data ''5%'') ''https://bank.example/'' 0
     (crawl_init ''https://bank.example/'') 0
   \<and> cs_q (crawl_init ''https://bank.example/'') = [(''https://bank.example/'', 0)]
   \<and> crawl_step lib_plain (net_open_data ''5%'') (crawl_init ''https://bank.example/'') 0
       = (Inr \<lparr>cs_visited = {|''https://bank.example/''|}, cs_q = [], cs_all_deps = [],
               cs_pages = [''https://bank.example/'']\<rparr>, 1)
   \<and> crawl_reach lib_plain (net_open_data ''5%'') ''https://bank.example/'' 0
       \<lparr>cs_visited = {|''https://bank.example/''|}, cs_q = [], cs_all_deps = [],
        cs_pages = [''https://bank.example/'']\<rparr> 1
   \<and> length (cs_pages \<lparr>cs_visited = {|''https://bank.example/''|}, cs_q = [],
        cs_all_deps = [], cs_pages = [''https://bank.example/'']\<rparr>) \<le> 20
   \<and> collect_links lib_plain ''https://bank.example/'' page_two_links 200
       = Inr [''https://bank.example/deposits/usd'']
   \<and> length [''https://bank.example/deposits/usd''] \<le> 200
   \<and> crawl_page lib_plain (net_open_data ''5%'') ''https://bank.example/'' 0
       {|''https://bank.example/''|} 0 = (Inr ([], []), 1)
   \<and> parse_universal lib_plain (net_open_data ''5%'') ''https://bank.example/'' 0 = (Inr [], 1)
   \<and> (\<exists>sf. crawl_reach lib_plain (net_open_data ''5%'') ''https://bank.example/'' 0 sf 1
          \<and> \<not> crawl_continues sf \<and> [] = dedup (cs_all_deps sf))"
proof -
  let ?U = "''https://bank.example/''"
  let ?N = "net_open_data ''5%''"
  let ?s1 = "\<lparr>cs_visited = {|?U|}, cs_q = [], cs_all_deps = [], cs_pages = [?U]\<rparr>"
  have r0: "crawl_reach lib_plain ?N ?U 0 (crawl_init ?U) 0"
    by (rule reach_init)
  have q0: "cs_q (crawl_init ?U) = [(?U, 0)]"
    by (simp add: crawl_init_def)
  have c0: "crawl_continues (crawl_init ?U)"
    by (simp add: crawl_continues_def crawl_init_def fcard_fempty)
  have cp: "crawl_page lib_plain ?N ?U 0 {|?U|} 0 = (Inr ([], []), 1)"
    by code_simp
  have st: "crawl_step lib_plain ?N (crawl_init ?U) 0 = (Inr ?s1, 1)"
    by (simp add: crawl_step_def crawl_init_def cp)
  have r1: "crawl_reach lib_plain ?N ?U 0 ?s1 1"
    using r0 c0 st by (rule reach_step)
  note t = crawl_terminates_and_is_bounded[of lib_plain ?N ?s1 1 ?U 0 ?U 0 "[]" ?s1 1
      ?U page_two_links "[''https://bank.example/deposits/usd'']" "{|?U|}" "[]" "[]" "[]"]
  note t4 = t[THEN conjunct2, THEN conjunct2, THEN conjunct2, THEN conjunct1]
  note t6 = t[THEN conjunct2, THEN conjunct2, THEN conjunct2, THEN conjunct2, THEN conjunct2,
      THEN conjunct1]
  note t8 = t[THEN conjunct2, THEN conjunct2, THEN conjunct2, THEN conjunct2, THEN conjunct2,
      THEN conjunct2, THEN conjunct2]
  have len: "length (cs_pages ?s1) \<le> 20"
    using mp[OF t4 r1] by (rule conjunct1)
  have cl: "collect_links lib_plain ?U page_two_links 200
       = Inr [''https://bank.example/deposits/usd'']"
    by code_simp
  have ll: "length [''https://bank.example/deposits/usd''] \<le> 200"
    using mp[OF t6 cl] .
  have pu: "parse_universal lib_plain ?N ?U 0 = (Inr [], 1)"
    by code_simp
  have ex: "\<exists>sf. crawl_reach lib_plain ?N ?U 0 sf 1 \<and> \<not> crawl_continues sf
          \<and> [] = dedup (cs_all_deps sf)"
    using mp[OF t8 pu] .
  show ?thesis
    by (intro conjI r0 q0 st r1 len cl ll cp pu ex)
qed

end
